theory Spec2Isabelle
  imports Main "HOL-Library.Word"
begin

unbundle bit_operations_syntax

section \<open>Wire-level data\<close>

text \<open>
  The generated Go file \<open>x/evm/txs/support/evm.pb.go\<close> works on byte slices. A byte is an
  8-bit word, a \<open>uint64\<close> a 64-bit word; Go strings are immutable byte sequences and are
  modelled, like \<open>[]byte\<close>, as byte lists (a \<open>nil\<close> slice and an empty one are the same
  list). Lengths and cursors are Go \<open>int\<close>s (64 bit); they are natural numbers here, and
  every place where the source tests a wrapped-around (negative) \<open>int\<close> is written as the
  test \<open>2 ^ 63 \<le> \<dots>\<close> on the unwrapped sum.
\<close>

type_synonym byte = "8 word"
type_synonym uint64 = "64 word"
type_synonym gostring = "byte list"

text \<open>
  The error values of the decoder: the three package-level errors, \<open>io.ErrUnexpectedEOF\<close>,
  the four \<open>fmt.Errorf\<close> messages (end-group tag, illegal tag, wrong wire type for a known
  field, illegal wire type in \<open>skipEvm\<close>), and an error returned by the custom type
  \<open>cosmossdk.io/math.Int\<close>. \<open>PanicIndexOutOfRange\<close> is not a Go error: it stands for the
  run-time panic of a write before the start of the buffer, so that its absence can be
  stated.
\<close>

datatype error =
    ErrInvalidLengthEvm
  | ErrIntOverflowEvm
  | ErrUnexpectedEndOfGroupEvm
  | ErrUnexpectedEOF
  | ErrEndGroupNonGroup
  | ErrIllegalTag
  | ErrWrongWireType
  | ErrIllegalWireType
  | ErrCustomType
  | PanicIndexOutOfRange

section \<open>Varints\<close>

text \<open>\<open>math/bits.Len64\<close>: the number of bits needed to represent the argument.\<close>

fun Len64_nat :: "nat \<Rightarrow> nat" where
  "Len64_nat n = (if n = 0 then 0 else Suc (Len64_nat (n div 2)))"

definition Len64 :: "uint64 \<Rightarrow> nat" where
  "Len64 x = Len64_nat (unat x)"

text \<open>\<open>sovEvm\<close>: \<open>(math_bits.Len64(x|1) + 6) / 7\<close>.\<close>

definition sovEvm :: "uint64 \<Rightarrow> nat" where
  "sovEvm x = (Len64 (x OR 1) + 6) div 7"

text \<open>
  \<open>encodeVarintEvm(dAtA, offset, v)\<close> moves \<open>offset\<close> back by \<open>sovEvm(v)\<close> and writes the
  groups of \<open>v\<close> forward from there. The model returns the bytes the loop writes; lemma
  \<open>length_encodeVarintEvm\<close> below shows that they are exactly \<open>sovEvm v\<close> many, so they
  fill the reserved gap.
\<close>

function encodeVarintEvm :: "uint64 \<Rightarrow> byte list" where
  "encodeVarintEvm v =
     (if 128 \<le> v then ucast ((v AND 0x7f) OR 0x80) # encodeVarintEvm (drop_bit 7 v)
      else [ucast v])"
  by pat_completeness auto
termination
  apply (relation "measure unat")
   apply simp
  apply (simp add: unat_drop_bit_eq word_le_nat_alt drop_bit_eq_div unat_div)
  done

text \<open>
  The varint reading loop, which the generated code repeats inline at every use:
  \<open>for shift := uint(0); ; shift += 7 { if shift >= 64 {overflow}; if iNdEx >= l {EOF};
  b := dAtA[iNdEx]; iNdEx++; v |= T(b&0x7F) << shift; if b < 0x80 {break} }\<close>.
  The accumulator has the type \<open>T\<close> of the variable the source reads into (\<open>uint64\<close>,
  \<open>int\<close>, \<open>int64\<close> as 64-bit words, \<open>int32\<close> as a 32-bit word); a shift by the width or
  more gives 0 in Go as in \<open>push_bit\<close>.
\<close>

function readVarint_loop ::
  "byte list \<Rightarrow> nat \<Rightarrow> nat \<Rightarrow> 'a::len word \<Rightarrow> error + ('a word \<times> nat)" where
  "readVarint_loop dAtA shift iNdEx v =
     (if 64 \<le> shift then Inl ErrIntOverflowEvm
      else if length dAtA \<le> iNdEx then Inl ErrUnexpectedEOF
      else
        let b = dAtA ! iNdEx;
            v' = v OR push_bit shift (ucast (b AND 0x7F))
        in if b < 0x80 then Inr (v', iNdEx + 1)
           else readVarint_loop dAtA (shift + 7) (iNdEx + 1) v')"
  by pat_completeness auto
termination
  by (relation "measure (\<lambda>(d, s, i, v). 64 - s)") auto

definition readVarint :: "byte list \<Rightarrow> nat \<Rightarrow> error + ('a::len word \<times> nat)" where
  "readVarint dAtA iNdEx = readVarint_loop dAtA 0 iNdEx 0"

text \<open>
  Reading a length prefix: the varint, then the three checks
  \<open>if intStringLen < 0\<close>, \<open>postIndex := iNdEx + intStringLen; if postIndex < 0\<close> and
  \<open>if postIndex > l\<close>. The result is the cursor after the prefix and \<open>postIndex\<close>.
\<close>

definition readLen :: "byte list \<Rightarrow> nat \<Rightarrow> error + (nat \<times> nat)" where
  "readLen dAtA iNdEx =
     (case readVarint dAtA iNdEx of
        Inl e \<Rightarrow> Inl e
      | Inr (stringLen :: uint64, iNdEx') \<Rightarrow>
          if sint stringLen < 0 then Inl ErrInvalidLengthEvm
          else
            let postIndex = iNdEx' + unat stringLen
            in if 2 ^ 63 \<le> postIndex then Inl ErrInvalidLengthEvm
               else if length dAtA < postIndex then Inl ErrUnexpectedEOF
               else Inr (iNdEx', postIndex))"

text \<open>The slice expression \<open>dAtA[i:j]\<close>.\<close>

definition slice :: "'a list \<Rightarrow> nat \<Rightarrow> nat \<Rightarrow> 'a list" where
  "slice dAtA i j = take (j - i) (drop i dAtA)"

section \<open>The unknown-field skipper\<close>

text \<open>The \<open>switch wireType\<close> of \<open>skipEvm\<close>: the new cursor and group depth.\<close>

definition skipEvm_switch ::
  "byte list \<Rightarrow> nat \<Rightarrow> nat \<Rightarrow> nat \<Rightarrow> error + (nat \<times> nat)" where
  "skipEvm_switch dAtA iNdEx wireType depth =
     (if wireType = 0 then
        (case (readVarint dAtA iNdEx :: error + (uint64 \<times> nat)) of
           Inl e \<Rightarrow> Inl e
         | Inr (_, iNdEx') \<Rightarrow> Inr (iNdEx', depth))
      else if wireType = 1 then Inr (iNdEx + 8, depth)
      else if wireType = 2 then
        (case readVarint dAtA iNdEx of
           Inl e \<Rightarrow> Inl e
         | Inr (len :: uint64, iNdEx') \<Rightarrow>
             if sint len < 0 then Inl ErrInvalidLengthEvm
             else Inr (iNdEx' + unat len, depth))
      else if wireType = 3 then Inr (iNdEx, depth + 1)
      else if wireType = 4 then
        (if depth = 0 then Inl ErrUnexpectedEndOfGroupEvm else Inr (iNdEx, depth - 1))
      else if wireType = 5 then Inr (iNdEx + 4, depth)
      else Inl ErrIllegalWireType)"

subsection \<open>Facts about the varint codec\<close>

declare Len64_nat.simps [simp del]
declare encodeVarintEvm.simps [simp del]
declare readVarint_loop.simps [simp del]

lemma Len64_nat_0: "Len64_nat 0 = 0"
  by (simp add: Len64_nat.simps)

lemma Len64_nat_pos: "0 < n \<Longrightarrow> Len64_nat n = Suc (Len64_nat (n div 2))"
  by (subst Len64_nat.simps) simp

lemma Len64_nat_le: "n < 2 ^ k \<Longrightarrow> Len64_nat n \<le> k"
proof (induction k arbitrary: n)
  case 0 then show ?case by (simp add: Len64_nat_0)
next
  case (Suc k)
  have "n div 2 < 2 ^ k" using Suc.prems by simp
  from Suc.IH[OF this] show ?case by (cases "n = 0") (simp_all add: Len64_nat_0 Len64_nat_pos)
qed

lemma Len64_nat_shift: "2 ^ k \<le> n \<Longrightarrow> Len64_nat n = k + Len64_nat (n div 2 ^ k)"
proof (induction k arbitrary: n)
  case 0 then show ?case by simp
next
  case (Suc k)
  have pos: "0 < n" using Suc.prems by (cases "n = 0") simp_all
  have "2 ^ k \<le> n div 2" using Suc.prems by simp
  from Suc.IH[OF this] have "Len64_nat (n div 2) = k + Len64_nat (n div 2 div 2 ^ k)" .
  moreover have "n div 2 div 2 ^ k = n div 2 ^ Suc k" by (simp add: div_mult2_eq)
  ultimately show ?case using Len64_nat_pos[OF pos] by simp
qed

lemma Len64_or1: "Len64 (x OR 1) = max 1 (Len64 x)"
proof -
  have u: "unat (x OR 1) = unat x OR 1" by (simp add: unsigned_or_eq)
  have "drop_bit 1 (unat x OR 1) = drop_bit 1 (unat x)"
    by (rule bit_eqI) (simp add: bit_simps)
  then have d: "(unat x OR 1) div 2 = unat x div 2"
    by (simp add: drop_bit_eq_div)
  have p: "0 < unat x OR 1" using or_eq_0_iff by auto
  show ?thesis
    unfolding Len64_def u using Len64_nat_pos[OF p] d
    by (cases "unat x = 0") (simp_all add: Len64_nat_0 Len64_nat_pos)
qed

lemma sovEvm_alt: "sovEvm v = (max 1 (Len64_nat (unat v)) + 6) div 7"
  by (simp only: sovEvm_def Len64_or1) (simp only: Len64_def)

lemma sovEvm_small: "v < 128 \<Longrightarrow> sovEvm v = 1"
proof -
  assume "v < 128"
  then have "unat v < 2 ^ 7" by (simp add: word_less_nat_alt)
  from Len64_nat_le[OF this] have "Len64_nat (unat v) \<le> 7" .
  then show ?thesis unfolding sovEvm_alt max_def by (simp split: if_splits) arith
qed

lemma sovEvm_step: "128 \<le> v \<Longrightarrow> sovEvm v = Suc (sovEvm (drop_bit 7 v))"
proof -
  assume "128 \<le> v"
  then have a: "2 ^ 7 \<le> unat v" by (simp add: word_le_nat_alt)
  have u: "unat (drop_bit 7 v) = unat v div 2 ^ 7"
    by (simp add: unat_drop_bit_eq drop_bit_eq_div unat_div)
  have "0 < unat v div 2 ^ 7" using a by (simp add: div_greater_zero_iff)
  then have "0 < Len64_nat (unat v div 2 ^ 7)" by (simp add: Len64_nat_pos)
  with Len64_nat_shift[OF a] show ?thesis
    unfolding sovEvm_alt u by (simp add: max_def)
qed

lemma length_encodeVarintEvm: "length (encodeVarintEvm v) = sovEvm v"
proof (induction v rule: encodeVarintEvm.induct)
  case (1 v)
  show ?case
  proof (cases "128 \<le> v")
    case True
    with 1 show ?thesis by (subst encodeVarintEvm.simps) (simp add: sovEvm_step)
  next
    case False
    then show ?thesis by (subst encodeVarintEvm.simps) (simp add: sovEvm_small)
  qed
qed

lemma sovEvm_le: "sovEvm v \<le> 10"
proof -
  have "unat v < 2 ^ 64" using unsigned_less[of v] by simp
  from Len64_nat_le[OF this] show ?thesis unfolding sovEvm_alt by (simp add: max_def) arith
qed

lemma sovEvm_pos: "0 < sovEvm v"
  unfolding sovEvm_alt by (simp add: max_def) arith

lemma encodeVarintEvm_nonempty: "encodeVarintEvm v \<noteq> []"
  using length_encodeVarintEvm[of v] sovEvm_pos[of v] by auto

text \<open>Bit-level facts about the masks \<open>0x7f\<close> and \<open>0x80\<close>.\<close>

lemma bit_0x7f: "bit (0x7f::'a::len word) n \<longleftrightarrow> n < 7 \<and> n < LENGTH('a)"
proof -
  have e: "(0x7f::'a word) = mask 7" by (simp add: mask_eq_exp_minus_1)
  show ?thesis unfolding e by (auto simp add: bit_simps)
qed

lemma bit_0x80: "bit (0x80::'a::len word) n \<longleftrightarrow> n = 7 \<and> n < LENGTH('a)"
proof -
  have e: "(0x80::'a word) = 2 ^ 7" by simp
  show ?thesis unfolding e by (auto simp add: bit_simps simp del: power_numeral)
qed

lemma bit_127_int: "bit (127::int) n \<longleftrightarrow> n < 7"
proof -
  have e: "(127::int) = mask 7" by (simp add: mask_eq_exp_minus_1)
  show ?thesis unfolding e by (simp add: bit_simps)
qed

lemma bit_128_int: "bit (128::int) n \<longleftrightarrow> n = 7"
proof -
  have e: "(128::int) = 2 ^ 7" by simp
  show ?thesis unfolding e by (auto simp add: bit_simps simp del: power_numeral)
qed

lemmas bit_consts = bit_0x7f bit_0x80 bit_127_int bit_128_int

lemma word_lt_0x80:
  fixes b :: "'a::len word"
  assumes "7 < LENGTH('a)"
  shows "b < 0x80 \<longleftrightarrow> (\<forall>n\<ge>7. \<not> bit b n)"
proof -
  have "b < 2 ^ 7 \<longleftrightarrow> b AND mask 7 = b"
    using mask_eq_iff_w2p[of 7 b] assms by (simp add: word_size)
  also have "\<dots> \<longleftrightarrow> (\<forall>n\<ge>7. \<not> bit b n)"
  proof
    assume e: "b AND mask 7 = b"
    show "\<forall>n\<ge>7. \<not> bit b n"
    proof (intro allI impI notI)
      fix n :: nat assume "7 \<le> n" "bit b n"
      then have "bit (b AND mask 7) n" by (simp add: e)
      then have "n < 7" by (simp add: bit_simps)
      with \<open>7 \<le> n\<close> show False by simp
    qed
  next
    assume a: "\<forall>n\<ge>7. \<not> bit b n"
    show "b AND mask 7 = b"
    proof (rule bit_word_eqI)
      fix n assume "n < LENGTH('a)"
      have "bit b n \<Longrightarrow> n < 7" using a by (cases "n < 7") simp_all
      then show "bit (b AND mask 7) n = bit b n"
        using \<open>n < LENGTH('a)\<close> by (auto simp add: bit_simps)
    qed
  qed
  finally show ?thesis by simp
qed

lemma byte_lt_0x80: "(b :: byte) < 0x80 \<longleftrightarrow> \<not> bit b 7"
proof -
  have "(\<forall>n\<ge>7. \<not> bit b n) \<longleftrightarrow> \<not> bit b 7"
  proof (intro iffI allI impI)
    fix n :: nat assume a: "\<not> bit b 7" "7 \<le> n"
    show "\<not> bit b n"
    proof (cases "n = 7")
      case False
      with a have "8 \<le> n" by simp
      then show ?thesis using bit_imp_le_length[of b n] by auto
    qed (use a in simp)
  qed simp
  then show ?thesis by (simp add: word_lt_0x80)
qed

lemma uint64_lt_128: "(v :: uint64) < 128 \<longleftrightarrow> (\<forall>n. bit v n \<longrightarrow> n < 7)"
proof -
  have "(\<forall>n\<ge>7. \<not> bit v n) \<longleftrightarrow> (\<forall>n. bit v n \<longrightarrow> n < 7)"
    by (metis not_le)
  then show ?thesis by (simp add: word_lt_0x80)
qed

lemma group_byte_high: "\<not> ((ucast ((v AND 0x7f) OR 0x80 :: uint64) :: byte) < 0x80)"
  by (simp add: byte_lt_0x80 bit_simps bit_consts)

lemma group_byte_low:
  "(ucast ((v AND 0x7f) OR 0x80 :: uint64) :: byte) AND 0x7f = ucast (v AND 0x7f)"
  by (rule bit_word_eqI) (auto simp add: bit_simps bit_consts)

lemma group_ucast:
  "(ucast (ucast (v AND 0x7f :: uint64) :: byte) :: 'a::len word) = ucast (v AND 0x7f)"
  by (rule bit_word_eqI) (auto simp add: bit_simps bit_consts)

lemma group_join:
  "push_bit s (ucast (v AND 0x7f :: uint64) :: 'a::len word)
     OR push_bit (s + 7) (ucast (drop_bit 7 v))
   = push_bit s (ucast v)"
proof (rule bit_word_eqI)
  fix n assume n: "n < LENGTH('a)"
  have k: "bit v (n - s) \<Longrightarrow> n - s < 64" using bit_imp_le_length[of v "n - s"] by simp
  show "bit (push_bit s (ucast (v AND 0x7f) :: 'a word)
          OR push_bit (s + 7) (ucast (drop_bit 7 v))) n
      = bit (push_bit s (ucast v :: 'a word)) n"
  proof (cases "n - s < 7")
    case True
    then show ?thesis using n k by (auto simp add: bit_simps bit_consts)
  next
    case False
    then have e: "7 + (n - (s + 7)) = n - s" by simp
    show ?thesis using False n k by (auto simp add: bit_simps bit_consts e)
  qed
qed

lemma last_byte_low: "(v::uint64) < 128 \<Longrightarrow> (ucast v :: byte) < 0x80"
  by (simp add: uint64_lt_128 byte_lt_0x80 bit_simps) blast

lemma last_byte_mask: "(v::uint64) < 128 \<Longrightarrow> (ucast v :: byte) AND 0x7f = ucast v"
  by (rule bit_word_eqI) (auto simp add: bit_simps bit_consts uint64_lt_128)

lemma last_byte_ucast:
  "(v::uint64) < 128 \<Longrightarrow> (ucast (ucast v :: byte) :: 'a::len word) = ucast v"
  by (rule bit_word_eqI) (force simp add: bit_simps bit_consts uint64_lt_128)

text \<open>Reading back a written varint, at any position of any buffer.\<close>

lemma readVarint_loop_encode:
  "shift + 7 * length (encodeVarintEvm v) \<le> 70 \<Longrightarrow>
   readVarint_loop (pre @ encodeVarintEvm v @ rest) shift (length pre) acc
     = Inr (acc OR push_bit shift (ucast v), length pre + length (encodeVarintEvm v))"
proof (induction v arbitrary: pre shift acc rule: encodeVarintEvm.induct)
  case (1 v)
  show ?case
  proof (cases "128 \<le> v")
    case True
    let ?b = "ucast ((v AND 0x7f) OR 0x80) :: byte"
    have enc: "encodeVarintEvm v = ?b # encodeVarintEvm (drop_bit 7 v)"
      using True by (subst encodeVarintEvm.simps) simp
    have sh: "shift + 7 + 7 * length (encodeVarintEvm (drop_bit 7 v)) \<le> 70"
      using "1.prems" by (simp add: enc)
    have lt: "shift < 64"
      using "1.prems" encodeVarintEvm_nonempty[of "drop_bit 7 v"]
      by (cases "encodeVarintEvm (drop_bit 7 v)") (simp_all add: enc)
    have app: "pre @ encodeVarintEvm v @ rest
        = (pre @ [?b]) @ encodeVarintEvm (drop_bit 7 v) @ rest"
      by (simp add: enc)
    have ih: "readVarint_loop ((pre @ [?b]) @ encodeVarintEvm (drop_bit 7 v) @ rest)
         (shift + 7) (length (pre @ [?b])) (acc OR push_bit shift (ucast (?b AND 0x7f)))
       = Inr ((acc OR push_bit shift (ucast (?b AND 0x7f)))
                OR push_bit (shift + 7) (ucast (drop_bit 7 v)),
              length (pre @ [?b]) + length (encodeVarintEvm (drop_bit 7 v)))"
      by (rule "1.IH"[OF True sh])
    have val: "(acc OR push_bit shift (ucast (?b AND 0x7f) :: 'a word))
                OR push_bit (shift + 7) (ucast (drop_bit 7 v))
             = acc OR push_bit shift (ucast v)"
      by (simp only: group_byte_low group_ucast or.assoc group_join)
    have ih': "readVarint_loop (pre @ ?b # encodeVarintEvm (drop_bit 7 v) @ rest)
         (shift + 7) (Suc (length pre)) (acc OR push_bit shift (ucast (?b AND 0x7f)))
       = Inr (acc OR push_bit shift (ucast v),
              Suc (length pre + length (encodeVarintEvm (drop_bit 7 v))))"
      using ih unfolding val by simp
    show ?thesis
      apply (subst readVarint_loop.simps)
      using lt ih' group_byte_high[of v] apply (simp add: enc Let_def)
      done
  next
    case False
    then have lt128: "v < 128" by simp
    have enc: "encodeVarintEvm v = [ucast v]"
      using False by (subst encodeVarintEvm.simps) simp
    have lt: "shift < 64" using "1.prems" by (simp add: enc)
    show ?thesis
      apply (subst readVarint_loop.simps)
      using lt
      apply (simp add: enc Let_def last_byte_low[OF lt128] last_byte_mask[OF lt128]
          last_byte_ucast[OF lt128])
      done
  qed
qed

lemma readVarint_encode:
  "readVarint (pre @ encodeVarintEvm v @ rest) (length pre)
     = Inr (ucast v, length pre + sovEvm v)"
proof -
  have "7 * length (encodeVarintEvm v) \<le> 70"
    using sovEvm_le[of v] by (simp add: length_encodeVarintEvm)
  then show ?thesis
    unfolding readVarint_def
    using readVarint_loop_encode[of 0 v pre rest 0]
    by (simp add: length_encodeVarintEvm)
qed

text \<open>A successful read consumes at least one byte and stays inside the buffer.\<close>

lemma readVarint_loop_advance:
  "readVarint_loop dAtA shift iNdEx acc = Inr (v, j) \<Longrightarrow> iNdEx < j \<and> j \<le> length dAtA"
proof (induction dAtA shift iNdEx acc rule: readVarint_loop.induct)
  case (1 dAtA shift iNdEx v0)
  from "1.prems" show ?case
    apply (subst (asm) readVarint_loop.simps)
    apply (simp add: Let_def split: if_splits)
    using "1.IH" apply fastforce
    done
qed

lemma readVarint_advance:
  "readVarint dAtA iNdEx = Inr (v, j) \<Longrightarrow> iNdEx < j \<and> j \<le> length dAtA"
  unfolding readVarint_def by (rule readVarint_loop_advance)

text \<open>
  \<open>skipEvm\<close>: the loop reads a tag, moves past the payload of its wire type, and returns
  the cursor when the group depth is back at 0. \<open>if iNdEx < 0\<close> after the switch tests a
  wrapped-around cursor.
\<close>

lemma skipEvm_switch_advance:
  "skipEvm_switch dAtA i wireType depth = Inr (j, depth') \<Longrightarrow> i \<le> j"
  unfolding skipEvm_switch_def
  by (auto split: if_splits sum.splits prod.splits dest: readVarint_advance)

function skipEvm_loop :: "byte list \<Rightarrow> nat \<Rightarrow> nat \<Rightarrow> error + nat" where
  "skipEvm_loop dAtA iNdEx depth =
     (if iNdEx < length dAtA then
        (case readVarint dAtA iNdEx of
           Inl e \<Rightarrow> Inl e
         | Inr (wire :: uint64, iNdEx') \<Rightarrow>
             (case skipEvm_switch dAtA iNdEx' (unat (wire AND 0x7)) depth of
                Inl e \<Rightarrow> Inl e
              | Inr (iNdEx'', depth') \<Rightarrow>
                  if 2 ^ 63 \<le> iNdEx'' then Inl ErrInvalidLengthEvm
                  else if depth' = 0 then Inr iNdEx''
                  else skipEvm_loop dAtA iNdEx'' depth'))
      else Inl ErrUnexpectedEOF)"
  by pat_completeness auto
termination
proof (relation "measure (\<lambda>(d, i, depth). length d - i)", goal_cases)
  case 1
  show ?case by simp
next
  case (2 dAtA iNdEx depth x2 wire i' x2a i'' depth')
  from readVarint_advance[of dAtA iNdEx wire i'] 2 have "iNdEx < i'" by simp
  moreover from skipEvm_switch_advance[of dAtA i' _ depth i'' depth'] 2 have "i' \<le> i''"
    by simp
  ultimately show ?case using 2 by auto
qed

declare skipEvm_loop.simps [simp del]

definition skipEvm :: "byte list \<Rightarrow> error + nat" where
  "skipEvm dAtA = skipEvm_loop dAtA 0 0"

section \<open>Decoding one field\<close>

text \<open>
  The \<open>default\<close> case of every \<open>Unmarshal\<close>: \<open>iNdEx = preIndex; skippy, err :=
  skipEvm(dAtA[iNdEx:])\<close>, then the checks \<open>(skippy < 0) || (iNdEx+skippy) < 0\<close> and
  \<open>(iNdEx + skippy) > l\<close>. \<open>skippy\<close> is never negative (\<open>skipEvm\<close> has tested it).
\<close>

definition skipField :: "byte list \<Rightarrow> nat \<Rightarrow> error + nat" where
  "skipField dAtA preIndex =
     (case skipEvm (drop preIndex dAtA) of
        Inl e \<Rightarrow> Inl e
      | Inr skippy \<Rightarrow>
          if 2 ^ 63 \<le> preIndex + skippy then Inl ErrInvalidLengthEvm
          else if length dAtA < preIndex + skippy then Inl ErrUnexpectedEOF
          else Inr (preIndex + skippy))"

text \<open>
  The head of the loop body: the tag varint, \<open>fieldNum := int32(wire >> 3)\<close>,
  \<open>wireType := int(wire & 0x7)\<close>, and the two checks every \<open>Unmarshal\<close> makes before its
  \<open>switch fieldNum\<close>.
\<close>

definition readTag :: "byte list \<Rightarrow> nat \<Rightarrow> error + (int \<times> nat \<times> nat)" where
  "readTag dAtA iNdEx =
     (case readVarint dAtA iNdEx of
        Inl e \<Rightarrow> Inl e
      | Inr (wire :: uint64, iNdEx') \<Rightarrow>
          let fieldNum = sint (ucast (drop_bit 3 wire) :: 32 word);
              wireType = unat (wire AND 0x7)
          in if wireType = 4 then Inl ErrEndGroupNonGroup
             else if fieldNum \<le> 0 then Inl ErrIllegalTag
             else Inr (fieldNum, wireType, iNdEx'))"

text \<open>
  The bodies of the \<open>case\<close>s, by kind of field. Each returns the decoded value and the new
  cursor. A string or bytes field (\<open>m.X = string(dAtA[iNdEx:postIndex])\<close>,
  \<open>m.X = append(m.X[:0], dAtA[iNdEx:postIndex]...)\<close>), also the first half of every
  embedded message and custom-type field:
\<close>

definition fieldBytes :: "byte list \<Rightarrow> nat \<Rightarrow> nat \<Rightarrow> error + (byte list \<times> nat)" where
  "fieldBytes dAtA iNdEx wireType =
     (if wireType \<noteq> 2 then Inl ErrWrongWireType
      else
        (case readLen dAtA iNdEx of
           Inl e \<Rightarrow> Inl e
         | Inr (iNdEx', postIndex) \<Rightarrow> Inr (slice dAtA iNdEx' postIndex, postIndex)))"

text \<open>A varint field, read into a variable of the field's width:\<close>

definition fieldVarint ::
  "byte list \<Rightarrow> nat \<Rightarrow> nat \<Rightarrow> error + ('a::len word \<times> nat)" where
  "fieldVarint dAtA iNdEx wireType =
     (if wireType \<noteq> 0 then Inl ErrWrongWireType else readVarint dAtA iNdEx)"

text \<open>
  The packed loop of \<open>Params.ExtraEIPs\<close>: \<open>for iNdEx < postIndex { var v int64; \<dots>;
  m.ExtraEIPs = append(m.ExtraEIPs, v) }\<close>. The varint loop inside tests the cursor against
  the whole buffer's length \<open>l\<close>, not against \<open>postIndex\<close>.
\<close>

function packedLoop ::
  "byte list \<Rightarrow> nat \<Rightarrow> nat \<Rightarrow> uint64 list \<Rightarrow> error + (uint64 list \<times> nat)" where
  "packedLoop dAtA iNdEx postIndex vs =
     (if iNdEx < postIndex then
        (case readVarint dAtA iNdEx of
           Inl e \<Rightarrow> Inl e
         | Inr (v, iNdEx') \<Rightarrow> packedLoop dAtA iNdEx' postIndex (vs @ [v]))
      else Inr (vs, iNdEx))"
  by pat_completeness auto
termination
proof (relation "measure (\<lambda>(d, i, p, vs). p - i)", goal_cases)
  case 1
  show ?case by simp
next
  case (2 dAtA iNdEx postIndex vs x2 v i')
  from readVarint_advance[of dAtA iNdEx v i'] 2 show ?case by auto
qed

declare packedLoop.simps [simp del]

text \<open>
  A repeated scalar field accepts both encodings: wire type 0 appends one element, wire
  type 2 runs the packed loop. The result is the list of elements to append.
\<close>

definition fieldPacked ::
  "byte list \<Rightarrow> nat \<Rightarrow> nat \<Rightarrow> error + (uint64 list \<times> nat)" where
  "fieldPacked dAtA iNdEx wireType =
     (if wireType = 0 then
        (case readVarint dAtA iNdEx of
           Inl e \<Rightarrow> Inl e
         | Inr (v, iNdEx') \<Rightarrow> Inr ([v], iNdEx'))
      else if wireType = 2 then
        (case readLen dAtA iNdEx of
           Inl e \<Rightarrow> Inl e
         | Inr (iNdEx', postIndex) \<Rightarrow> packedLoop dAtA iNdEx' postIndex [])
      else Inl ErrWrongWireType)"

text \<open>Storing a decoded value in the record, where storing cannot or can fail:\<close>

definition store :: "error + ('a \<times> nat) \<Rightarrow> ('a \<Rightarrow> 'm) \<Rightarrow> error + ('m \<times> nat)" where
  "store r f = (case r of Inl e \<Rightarrow> Inl e | Inr (x, i) \<Rightarrow> Inr (f x, i))"

definition storeE ::
  "error + ('a \<times> nat) \<Rightarrow> ('a \<Rightarrow> error + 'm) \<Rightarrow> error + ('m \<times> nat)" where
  "storeE r f =
     (case r of
        Inl e \<Rightarrow> Inl e
      | Inr (x, i) \<Rightarrow> (case f x of Inl e \<Rightarrow> Inl e | Inr y \<Rightarrow> Inr (y, i)))"

section \<open>Encoding one field\<close>

text \<open>
  \<open>MarshalToSizedBuffer\<close> fills its buffer from the end backwards, one block per field in
  descending field order. The blocks below are the bytes one such block leaves in the
  buffer, in buffer order: the tag, then the payload. A singular string or bytes field
  (\<open>if len(m.X) > 0 { \<dots> }\<close>):
\<close>

definition lenDelim :: "byte list \<Rightarrow> byte list \<Rightarrow> byte list" where
  "lenDelim tag payload = tag @ encodeVarintEvm (of_nat (length payload)) @ payload"

definition bytesBlock :: "byte list \<Rightarrow> byte list \<Rightarrow> byte list" where
  "bytesBlock tag s = (if 0 < length s then lenDelim tag s else [])"

definition boolBlock :: "byte list \<Rightarrow> bool \<Rightarrow> byte list" where
  "boolBlock tag b = (if b then tag @ [if b then 1 else 0] else [])"

definition varintBlock :: "byte list \<Rightarrow> uint64 \<Rightarrow> byte list" where
  "varintBlock tag v = (if v \<noteq> 0 then tag @ encodeVarintEvm v else [])"

text \<open>
  The packed block of \<open>Params.ExtraEIPs\<close>; its inline loop over each \<open>num\<close> is the loop of
  \<open>encodeVarintEvm\<close>.
\<close>

definition packedBlock :: "byte list \<Rightarrow> uint64 list \<Rightarrow> byte list" where
  "packedBlock tag xs =
     (if 0 < length xs then lenDelim tag (concat (map encodeVarintEvm xs)) else [])"

text \<open>The size of a length-delimited field: \<open>n += t + l + sovEvm(uint64(l))\<close>.\<close>

definition sizeLenDelim :: "nat \<Rightarrow> nat \<Rightarrow> nat" where
  "sizeLenDelim t l = t + l + sovEvm (of_nat l)"

text \<open>
  \<open>Marshal\<close>: \<open>size := m.Size(); dAtA = make([]byte, size); n, err :=
  m.MarshalToSizedBuffer(dAtA[:size]); return dAtA[:n], nil\<close>. Given the bytes \<open>out\<close> that
  \<open>MarshalToSizedBuffer\<close> writes at the end of the zeroed buffer (\<open>n\<close> is their number),
  the call panics when they do not fit and returns the first \<open>n\<close> bytes of the buffer
  otherwise.
\<close>

definition marshalWith :: "nat \<Rightarrow> byte list \<Rightarrow> error + byte list" where
  "marshalWith sz out =
     (let n = length out
      in if sz < n then Inl PanicIndexOutOfRange
         else Inr (take n (replicate (sz - n) 0 @ out)))"

section \<open>The custom type \<open>cosmossdk.io/math.Int\<close>\<close>

text \<open>
  \<open>ChainConfig\<close> holds its block numbers as \<open>*math.Int\<close>, a type of the library
  \<open>cosmossdk.io/math\<close>, outside this repository. Its codec is a parameter of the model:
  \<open>Int_Marshal\<close> gives the bytes of a value (\<open>Size\<close> is their number and \<open>MarshalTo\<close>
  copies them, as in the library), \<open>Int_Unmarshal\<close> reads a fresh \<open>Int\<close> from bytes.
\<close>

record int_codec =
  Int_Marshal :: "int \<Rightarrow> byte list"
  Int_Unmarshal :: "byte list \<Rightarrow> error + int"

definition optIntBlock :: "int_codec \<Rightarrow> byte list \<Rightarrow> int option \<Rightarrow> byte list" where
  "optIntBlock ic tag x =
     (case x of None \<Rightarrow> [] | Some v \<Rightarrow> lenDelim tag (Int_Marshal ic v))"

definition optIntSize :: "int_codec \<Rightarrow> nat \<Rightarrow> int option \<Rightarrow> nat" where
  "optIntSize ic t x =
     (case x of None \<Rightarrow> 0 | Some v \<Rightarrow> sizeLenDelim t (length (Int_Marshal ic v)))"

text \<open>
  \<open>var v math.Int; m.X = &v; if err := m.X.Unmarshal(dAtA[iNdEx:postIndex]); err != nil
  { return err }\<close>: the field is set to a fresh value whenever its tag is read.
\<close>

definition fieldInt ::
  "int_codec \<Rightarrow> byte list \<Rightarrow> nat \<Rightarrow> nat \<Rightarrow> error + (int option \<times> nat)" where
  "fieldInt ic dAtA iNdEx wireType =
     storeE (fieldBytes dAtA iNdEx wireType)
       (\<lambda>bs. case Int_Unmarshal ic bs of Inl e \<Rightarrow> Inl e | Inr v \<Rightarrow> Inr (Some v))"

subsection \<open>Every successful read moves the cursor forward, inside the buffer\<close>

lemma readLen_advance:
  "readLen dAtA i = Inr (i', p) \<Longrightarrow> i < i' \<and> i' \<le> p \<and> p \<le> length dAtA \<and> p < 2 ^ 63"
  unfolding readLen_def
  by (auto simp: Let_def split: sum.splits prod.splits if_splits dest: readVarint_advance)

lemma fieldBytes_advance:
  "fieldBytes dAtA i wt = Inr (bs, j) \<Longrightarrow> i < j \<and> j \<le> length dAtA"
  unfolding fieldBytes_def
  by (auto split: sum.splits prod.splits if_splits dest: readLen_advance)

lemma fieldVarint_advance:
  "fieldVarint dAtA i wt = Inr (v, j) \<Longrightarrow> i < j \<and> j \<le> length dAtA"
  unfolding fieldVarint_def
  by (auto split: if_splits dest: readVarint_advance)

lemma packedLoop_advance:
  "packedLoop dAtA i p vs = Inr (vs', j) \<Longrightarrow> i \<le> length dAtA
     \<Longrightarrow> i \<le> j \<and> j \<le> length dAtA"
proof (induction dAtA i p vs rule: packedLoop.induct)
  case (1 dAtA iNdEx postIndex vs)
  show ?case
  proof (cases "iNdEx < postIndex")
    case True
    with "1.prems" obtain v i' where r: "readVarint dAtA iNdEx = Inr (v, i')"
      and rec: "packedLoop dAtA i' postIndex (vs @ [v]) = Inr (vs', j)"
      by (subst (asm) packedLoop.simps) (auto split: sum.splits prod.splits)
    from readVarint_advance[OF r] have a: "iNdEx < i'" "i' \<le> length dAtA" by simp_all
    from "1.IH"[OF True r refl rec a(2)] a show ?thesis by simp
  next
    case False
    with "1.prems" show ?thesis by (subst (asm) packedLoop.simps) simp
  qed
qed

lemma fieldPacked_advance:
  "fieldPacked dAtA i wt = Inr (vs, j) \<Longrightarrow> i < j \<and> j \<le> length dAtA"
  unfolding fieldPacked_def
  by (auto split: sum.splits prod.splits if_splits
      dest!: readVarint_advance readLen_advance dest: packedLoop_advance)

lemma fieldInt_advance:
  "fieldInt ic dAtA i wt = Inr (v, j) \<Longrightarrow> i < j \<and> j \<le> length dAtA"
  unfolding fieldInt_def storeE_def
  by (auto split: sum.splits prod.splits dest: fieldBytes_advance)

lemma skipEvm_loop_advance:
  "skipEvm_loop dAtA i depth = Inr k \<Longrightarrow> i < k \<and> k < 2 ^ 63"
proof (induction dAtA i depth rule: skipEvm_loop.induct)
  case (1 dAtA iNdEx depth)
  from "1.prems" obtain wire :: uint64 and i' i'' depth' where
    lt: "iNdEx < length dAtA" and r: "readVarint dAtA iNdEx = Inr (wire, i')"
    and sw: "skipEvm_switch dAtA i' (unat (wire AND 0x7)) depth = Inr (i'', depth')"
    and nov: "\<not> (2::nat) ^ 63 \<le> i''"
    and fin: "if depth' = 0 then k = i'' else skipEvm_loop dAtA i'' depth' = Inr k"
    by (subst (asm) skipEvm_loop.simps)
       (auto split: sum.splits prod.splits if_splits)
  from readVarint_advance[OF r] have a: "iNdEx < i'" by simp
  from skipEvm_switch_advance[OF sw] have b: "i' \<le> i''" .
  show ?case
  proof (cases "depth' = 0")
    case True
    with fin a b nov show ?thesis by simp
  next
    case False
    with fin have "skipEvm_loop dAtA i'' depth' = Inr k" by simp
    from "1.IH"[OF lt r refl sw refl nov False this] a b show ?thesis by simp
  qed
qed

lemma skipField_advance:
  "skipField dAtA pre = Inr j \<Longrightarrow> pre < j \<and> j \<le> length dAtA"
  unfolding skipField_def skipEvm_def
  by (auto split: sum.splits if_splits dest: skipEvm_loop_advance)

lemma readTag_advance:
  "readTag dAtA i = Inr (fn, wt, i') \<Longrightarrow> i < i' \<and> i' \<le> length dAtA"
  unfolding readTag_def
  by (auto simp: Let_def split: sum.splits prod.splits if_splits dest: readVarint_advance)

lemma store_Inr:
  "store r f = Inr (m', j) \<longleftrightarrow> (\<exists>x. r = Inr (x, j) \<and> m' = f x)"
  unfolding store_def by (auto split: sum.splits prod.splits)

lemma storeE_Inr:
  "storeE r f = Inr (m', j) \<longleftrightarrow> (\<exists>x. r = Inr (x, j) \<and> f x = Inr m')"
  unfolding storeE_def by (auto split: sum.splits prod.splits)

lemma storeD: "store r f = Inr (m', j) \<Longrightarrow> \<exists>x. r = Inr (x, j)"
  by (auto simp: store_Inr)

lemma storeED: "storeE r f = Inr (m', j) \<Longrightarrow> \<exists>x. r = Inr (x, j)"
  by (auto simp: storeE_Inr)

lemmas field_advance =
  fieldBytes_advance fieldVarint_advance fieldPacked_advance fieldInt_advance

text \<open>The \<open>default\<close> case leaves the record as it is.\<close>

definition unknownField :: "byte list \<Rightarrow> nat \<Rightarrow> 'm \<Rightarrow> error + ('m \<times> nat)" where
  "unknownField dAtA preIndex m =
     (case skipField dAtA preIndex of Inl e \<Rightarrow> Inl e | Inr j \<Rightarrow> Inr (m, j))"

lemma unknownField_advance:
  "unknownField dAtA pre m = Inr (m', j) \<Longrightarrow> pre < j \<and> j \<le> length dAtA"
  unfolding unknownField_def by (auto split: sum.splits dest: skipField_advance)

text \<open>Sizes of the singular blocks, as the \<open>Size\<close> methods add them up.\<close>

definition bytesSize :: "nat \<Rightarrow> byte list \<Rightarrow> nat" where
  "bytesSize t s = (let l = length s in if 0 < l then sizeLenDelim t l else 0)"

definition boolSize :: "bool \<Rightarrow> nat" where
  "boolSize b = (if b then 2 else 0)"

definition varintSize :: "uint64 \<Rightarrow> nat" where
  "varintSize v = (if v \<noteq> 0 then 1 + sovEvm v else 0)"

section \<open>The records and their codecs\<close>

text \<open>
  For each message type: the struct as a record, its zero value, \<open>Size\<close>,
  \<open>MarshalToSizedBuffer\<close> (the bytes written, in buffer order: the source writes the
  blocks last field first, from the end of the buffer), \<open>Marshal\<close>, and \<open>Unmarshal\<close>. The
  eight \<open>Unmarshal\<close> methods have the same loop; its body is split into the tag head
  (\<open>readTag\<close>), and the \<open>switch fieldNum\<close> of the type (\<open>T_field\<close>). \<open>Unmarshal\<close> is a
  method on an existing message and merges into it: the model takes that message as its
  second argument, and decoding into a fresh message starts from the zero value.
\<close>

subsection \<open>State\<close>

record State =
  Key :: gostring
  Value :: gostring

definition State_zero :: State where
  "State_zero = \<lparr>Key = [], Value = []\<rparr>"

definition State_Size :: "State \<Rightarrow> nat" where
  "State_Size m = bytesSize 1 (Key m) + bytesSize 1 (Value m)"

definition State_MarshalToSizedBuffer :: "State \<Rightarrow> byte list" where
  "State_MarshalToSizedBuffer m = bytesBlock [0xa] (Key m) @ bytesBlock [0x12] (Value m)"

definition State_Marshal :: "State \<Rightarrow> error + byte list" where
  "State_Marshal m = marshalWith (State_Size m) (State_MarshalToSizedBuffer m)"

definition State_field ::
  "byte list \<Rightarrow> nat \<Rightarrow> nat \<Rightarrow> int \<Rightarrow> nat \<Rightarrow> State \<Rightarrow> error + (State \<times> nat)" where
  "State_field dAtA preIndex iNdEx fieldNum wireType m =
     (if fieldNum = 1 then store (fieldBytes dAtA iNdEx wireType) (\<lambda>s. m\<lparr>Key := s\<rparr>)
      else if fieldNum = 2 then store (fieldBytes dAtA iNdEx wireType) (\<lambda>s. m\<lparr>Value := s\<rparr>)
      else unknownField dAtA preIndex m)"

definition State_step :: "byte list \<Rightarrow> nat \<Rightarrow> State \<Rightarrow> error + (State \<times> nat)" where
  "State_step dAtA iNdEx m =
     (case readTag dAtA iNdEx of
        Inl e \<Rightarrow> Inl e
      | Inr (fieldNum, wireType, iNdEx') \<Rightarrow> State_field dAtA iNdEx iNdEx' fieldNum wireType m)"

lemma State_field_advance:
  "State_field dAtA pre i fn wt m = Inr (m', j) \<Longrightarrow> pre < i \<Longrightarrow> i \<le> length dAtA
     \<Longrightarrow> pre < j \<and> j \<le> length dAtA"
  unfolding State_field_def
  by (auto split: if_splits dest!: storeD storeED field_advance unknownField_advance)

lemma State_step_advance:
  "State_step dAtA i m = Inr (m', j) \<Longrightarrow> i < j \<and> j \<le> length dAtA"
  unfolding State_step_def
  by (auto split: sum.splits prod.splits dest!: readTag_advance State_field_advance)

function State_loop :: "byte list \<Rightarrow> nat \<Rightarrow> State \<Rightarrow> error + State" where
  "State_loop dAtA iNdEx m =
     (if iNdEx < length dAtA then
        (case State_step dAtA iNdEx m of
           Inl e \<Rightarrow> Inl e
         | Inr (m', iNdEx') \<Rightarrow> State_loop dAtA iNdEx' m')
      else if length dAtA < iNdEx then Inl ErrUnexpectedEOF
      else Inr m)"
  by pat_completeness auto
termination
  by (relation "measure (\<lambda>(d, i, m). length d - i)") (auto dest!: State_step_advance)

declare State_loop.simps [simp del]

definition State_Unmarshal :: "byte list \<Rightarrow> State \<Rightarrow> error + State" where
  "State_Unmarshal dAtA m = State_loop dAtA 0 m"

subsection \<open>AccessTuple\<close>

record AccessTuple =
  Address :: gostring
  StorageKeys :: "gostring list"

definition AccessTuple_zero :: AccessTuple where
  "AccessTuple_zero = \<lparr>AccessTuple.Address = [], StorageKeys = []\<rparr>"

definition AccessTuple_Size :: "AccessTuple \<Rightarrow> nat" where
  "AccessTuple_Size m =
     bytesSize 1 (AccessTuple.Address m)
     + (\<Sum>s\<leftarrow>StorageKeys m. sizeLenDelim 1 (length s))"

definition AccessTuple_MarshalToSizedBuffer :: "AccessTuple \<Rightarrow> byte list" where
  "AccessTuple_MarshalToSizedBuffer m =
     bytesBlock [0xa] (AccessTuple.Address m)
     @ concat (map (lenDelim [0x12]) (StorageKeys m))"

definition AccessTuple_Marshal :: "AccessTuple \<Rightarrow> error + byte list" where
  "AccessTuple_Marshal m =
     marshalWith (AccessTuple_Size m) (AccessTuple_MarshalToSizedBuffer m)"

definition AccessTuple_field ::
  "byte list \<Rightarrow> nat \<Rightarrow> nat \<Rightarrow> int \<Rightarrow> nat \<Rightarrow> AccessTuple
     \<Rightarrow> error + (AccessTuple \<times> nat)" where
  "AccessTuple_field dAtA preIndex iNdEx fieldNum wireType m =
     (if fieldNum = 1 then
        store (fieldBytes dAtA iNdEx wireType) (\<lambda>s. m\<lparr>AccessTuple.Address := s\<rparr>)
      else if fieldNum = 2 then
        store (fieldBytes dAtA iNdEx wireType)
          (\<lambda>s. m\<lparr>StorageKeys := StorageKeys m @ [s]\<rparr>)
      else unknownField dAtA preIndex m)"

definition AccessTuple_step ::
  "byte list \<Rightarrow> nat \<Rightarrow> AccessTuple \<Rightarrow> error + (AccessTuple \<times> nat)" where
  "AccessTuple_step dAtA iNdEx m =
     (case readTag dAtA iNdEx of
        Inl e \<Rightarrow> Inl e
      | Inr (fieldNum, wireType, iNdEx') \<Rightarrow>
          AccessTuple_field dAtA iNdEx iNdEx' fieldNum wireType m)"

lemma AccessTuple_field_advance:
  "AccessTuple_field dAtA pre i fn wt m = Inr (m', j) \<Longrightarrow> pre < i \<Longrightarrow> i \<le> length dAtA
     \<Longrightarrow> pre < j \<and> j \<le> length dAtA"
  unfolding AccessTuple_field_def
  by (auto split: if_splits dest!: storeD storeED field_advance unknownField_advance)

lemma AccessTuple_step_advance:
  "AccessTuple_step dAtA i m = Inr (m', j) \<Longrightarrow> i < j \<and> j \<le> length dAtA"
  unfolding AccessTuple_step_def
  by (auto split: sum.splits prod.splits dest!: readTag_advance AccessTuple_field_advance)

function AccessTuple_loop :: "byte list \<Rightarrow> nat \<Rightarrow> AccessTuple \<Rightarrow> error + AccessTuple" where
  "AccessTuple_loop dAtA iNdEx m =
     (if iNdEx < length dAtA then
        (case AccessTuple_step dAtA iNdEx m of
           Inl e \<Rightarrow> Inl e
         | Inr (m', iNdEx') \<Rightarrow> AccessTuple_loop dAtA iNdEx' m')
      else if length dAtA < iNdEx then Inl ErrUnexpectedEOF
      else Inr m)"
  by pat_completeness auto
termination
  by (relation "measure (\<lambda>(d, i, m). length d - i)") (auto dest!: AccessTuple_step_advance)

declare AccessTuple_loop.simps [simp del]

definition AccessTuple_Unmarshal :: "byte list \<Rightarrow> AccessTuple \<Rightarrow> error + AccessTuple" where
  "AccessTuple_Unmarshal dAtA m = AccessTuple_loop dAtA 0 m"

subsection \<open>Log\<close>

record Log =
  Address :: gostring
  Topics :: "gostring list"
  Data :: "byte list"
  BlockNumber :: uint64
  TxHash :: gostring
  TxIndex :: uint64
  BlockHash :: gostring
  Index :: uint64
  Removed :: bool

definition Log_zero :: Log where
  "Log_zero = \<lparr>Log.Address = [], Topics = [], Data = [], BlockNumber = 0, TxHash = [],
     TxIndex = 0, BlockHash = [], Index = 0, Removed = False\<rparr>"

definition Log_Size :: "Log \<Rightarrow> nat" where
  "Log_Size m =
     bytesSize 1 (Log.Address m)
     + (\<Sum>s\<leftarrow>Topics m. sizeLenDelim 1 (length s))
     + bytesSize 1 (Data m)
     + varintSize (BlockNumber m)
     + bytesSize 1 (TxHash m)
     + varintSize (TxIndex m)
     + bytesSize 1 (BlockHash m)
     + varintSize (Index m)
     + boolSize (Removed m)"

definition Log_MarshalToSizedBuffer :: "Log \<Rightarrow> byte list" where
  "Log_MarshalToSizedBuffer m =
     bytesBlock [0xa] (Log.Address m)
     @ concat (map (lenDelim [0x12]) (Topics m))
     @ bytesBlock [0x1a] (Data m)
     @ varintBlock [0x20] (BlockNumber m)
     @ bytesBlock [0x2a] (TxHash m)
     @ varintBlock [0x30] (TxIndex m)
     @ bytesBlock [0x3a] (BlockHash m)
     @ varintBlock [0x40] (Index m)
     @ boolBlock [0x48] (Removed m)"

definition Log_Marshal :: "Log \<Rightarrow> error + byte list" where
  "Log_Marshal m = marshalWith (Log_Size m) (Log_MarshalToSizedBuffer m)"

definition Log_field ::
  "byte list \<Rightarrow> nat \<Rightarrow> nat \<Rightarrow> int \<Rightarrow> nat \<Rightarrow> Log \<Rightarrow> error + (Log \<times> nat)" where
  "Log_field dAtA preIndex iNdEx fieldNum wireType m =
     (if fieldNum = 1 then
        store (fieldBytes dAtA iNdEx wireType) (\<lambda>s. m\<lparr>Log.Address := s\<rparr>)
      else if fieldNum = 2 then
        store (fieldBytes dAtA iNdEx wireType) (\<lambda>s. m\<lparr>Topics := Topics m @ [s]\<rparr>)
      else if fieldNum = 3 then
        store (fieldBytes dAtA iNdEx wireType) (\<lambda>s. m\<lparr>Data := s\<rparr>)
      else if fieldNum = 4 then
        store (fieldVarint dAtA iNdEx wireType) (\<lambda>v. m\<lparr>BlockNumber := v\<rparr>)
      else if fieldNum = 5 then
        store (fieldBytes dAtA iNdEx wireType) (\<lambda>s. m\<lparr>TxHash := s\<rparr>)
      else if fieldNum = 6 then
        store (fieldVarint dAtA iNdEx wireType) (\<lambda>v. m\<lparr>TxIndex := v\<rparr>)
      else if fieldNum = 7 then
        store (fieldBytes dAtA iNdEx wireType) (\<lambda>s. m\<lparr>BlockHash := s\<rparr>)
      else if fieldNum = 8 then
        store (fieldVarint dAtA iNdEx wireType) (\<lambda>v. m\<lparr>Index := v\<rparr>)
      else if fieldNum = 9 then
        store (fieldVarint dAtA iNdEx wireType) (\<lambda>v :: uint64. m\<lparr>Removed := (v \<noteq> 0)\<rparr>)
      else unknownField dAtA preIndex m)"

definition Log_step :: "byte list \<Rightarrow> nat \<Rightarrow> Log \<Rightarrow> error + (Log \<times> nat)" where
  "Log_step dAtA iNdEx m =
     (case readTag dAtA iNdEx of
        Inl e \<Rightarrow> Inl e
      | Inr (fieldNum, wireType, iNdEx') \<Rightarrow> Log_field dAtA iNdEx iNdEx' fieldNum wireType m)"

lemma Log_field_advance:
  "Log_field dAtA pre i fn wt m = Inr (m', j) \<Longrightarrow> pre < i \<Longrightarrow> i \<le> length dAtA
     \<Longrightarrow> pre < j \<and> j \<le> length dAtA"
  unfolding Log_field_def
  by (auto split: if_splits dest!: storeD storeED field_advance unknownField_advance)

lemma Log_step_advance:
  "Log_step dAtA i m = Inr (m', j) \<Longrightarrow> i < j \<and> j \<le> length dAtA"
  unfolding Log_step_def
  by (auto split: sum.splits prod.splits dest!: readTag_advance Log_field_advance)

function Log_loop :: "byte list \<Rightarrow> nat \<Rightarrow> Log \<Rightarrow> error + Log" where
  "Log_loop dAtA iNdEx m =
     (if iNdEx < length dAtA then
        (case Log_step dAtA iNdEx m of
           Inl e \<Rightarrow> Inl e
         | Inr (m', iNdEx') \<Rightarrow> Log_loop dAtA iNdEx' m')
      else if length dAtA < iNdEx then Inl ErrUnexpectedEOF
      else Inr m)"
  by pat_completeness auto
termination
  by (relation "measure (\<lambda>(d, i, m). length d - i)") (auto dest!: Log_step_advance)

declare Log_loop.simps [simp del]

definition Log_Unmarshal :: "byte list \<Rightarrow> Log \<Rightarrow> error + Log" where
  "Log_Unmarshal dAtA m = Log_loop dAtA 0 m"

subsection \<open>TransactionLogs\<close>

text \<open>
  \<open>Logs\<close> is a \<open>[]*Log\<close>; the model holds the logs themselves (a \<open>nil\<close> element would
  make \<open>MarshalToSizedBuffer\<close> dereference a nil pointer). Decoding appends a fresh
  \<open>&Log{}\<close> and unmarshals into it.
\<close>

record TransactionLogs =
  Hash :: gostring
  Logs :: "Log list"

definition TransactionLogs_zero :: TransactionLogs where
  "TransactionLogs_zero = \<lparr>Hash = [], Logs = []\<rparr>"

definition TransactionLogs_Size :: "TransactionLogs \<Rightarrow> nat" where
  "TransactionLogs_Size m =
     bytesSize 1 (Hash m)
     + (\<Sum>e\<leftarrow>Logs m. sizeLenDelim 1 (Log_Size e))"

definition TransactionLogs_MarshalToSizedBuffer :: "TransactionLogs \<Rightarrow> byte list" where
  "TransactionLogs_MarshalToSizedBuffer m =
     bytesBlock [0xa] (Hash m)
     @ concat (map (\<lambda>e. lenDelim [0x12] (Log_MarshalToSizedBuffer e)) (Logs m))"

definition TransactionLogs_Marshal :: "TransactionLogs \<Rightarrow> error + byte list" where
  "TransactionLogs_Marshal m =
     marshalWith (TransactionLogs_Size m) (TransactionLogs_MarshalToSizedBuffer m)"

definition TransactionLogs_field ::
  "byte list \<Rightarrow> nat \<Rightarrow> nat \<Rightarrow> int \<Rightarrow> nat \<Rightarrow> TransactionLogs
     \<Rightarrow> error + (TransactionLogs \<times> nat)" where
  "TransactionLogs_field dAtA preIndex iNdEx fieldNum wireType m =
     (if fieldNum = 1 then
        store (fieldBytes dAtA iNdEx wireType) (\<lambda>s. m\<lparr>Hash := s\<rparr>)
      else if fieldNum = 2 then
        storeE (fieldBytes dAtA iNdEx wireType)
          (\<lambda>bs. case Log_Unmarshal bs Log_zero of
                   Inl e \<Rightarrow> Inl e
                 | Inr e \<Rightarrow> Inr (m\<lparr>Logs := Logs m @ [e]\<rparr>))
      else unknownField dAtA preIndex m)"

definition TransactionLogs_step ::
  "byte list \<Rightarrow> nat \<Rightarrow> TransactionLogs \<Rightarrow> error + (TransactionLogs \<times> nat)" where
  "TransactionLogs_step dAtA iNdEx m =
     (case readTag dAtA iNdEx of
        Inl e \<Rightarrow> Inl e
      | Inr (fieldNum, wireType, iNdEx') \<Rightarrow>
          TransactionLogs_field dAtA iNdEx iNdEx' fieldNum wireType m)"

lemma TransactionLogs_field_advance:
  "TransactionLogs_field dAtA pre i fn wt m = Inr (m', j) \<Longrightarrow> pre < i \<Longrightarrow> i \<le> length dAtA
     \<Longrightarrow> pre < j \<and> j \<le> length dAtA"
  unfolding TransactionLogs_field_def
  by (auto split: if_splits dest!: storeD storeED field_advance unknownField_advance)

lemma TransactionLogs_step_advance:
  "TransactionLogs_step dAtA i m = Inr (m', j) \<Longrightarrow> i < j \<and> j \<le> length dAtA"
  unfolding TransactionLogs_step_def
  by (auto split: sum.splits prod.splits dest!: readTag_advance TransactionLogs_field_advance)

function TransactionLogs_loop ::
  "byte list \<Rightarrow> nat \<Rightarrow> TransactionLogs \<Rightarrow> error + TransactionLogs" where
  "TransactionLogs_loop dAtA iNdEx m =
     (if iNdEx < length dAtA then
        (case TransactionLogs_step dAtA iNdEx m of
           Inl e \<Rightarrow> Inl e
         | Inr (m', iNdEx') \<Rightarrow> TransactionLogs_loop dAtA iNdEx' m')
      else if length dAtA < iNdEx then Inl ErrUnexpectedEOF
      else Inr m)"
  by pat_completeness auto
termination
  by (relation "measure (\<lambda>(d, i, m). length d - i)")
     (auto dest!: TransactionLogs_step_advance)

declare TransactionLogs_loop.simps [simp del]

definition TransactionLogs_Unmarshal ::
  "byte list \<Rightarrow> TransactionLogs \<Rightarrow> error + TransactionLogs" where
  "TransactionLogs_Unmarshal dAtA m = TransactionLogs_loop dAtA 0 m"

subsection \<open>TxResult\<close>

record TxResult =
  ContractAddress :: gostring
  Bloom :: "byte list"
  TxLogs :: TransactionLogs
  Ret :: "byte list"
  Reverted :: bool
  GasUsed :: uint64

definition TxResult_zero :: TxResult where
  "TxResult_zero = \<lparr>ContractAddress = [], Bloom = [], TxLogs = TransactionLogs_zero,
     Ret = [], Reverted = False, GasUsed = 0\<rparr>"

definition TxResult_Size :: "TxResult \<Rightarrow> nat" where
  "TxResult_Size m =
     bytesSize 1 (ContractAddress m)
     + bytesSize 1 (Bloom m)
     + sizeLenDelim 1 (TransactionLogs_Size (TxLogs m))
     + bytesSize 1 (Ret m)
     + boolSize (Reverted m)
     + varintSize (GasUsed m)"

definition TxResult_MarshalToSizedBuffer :: "TxResult \<Rightarrow> byte list" where
  "TxResult_MarshalToSizedBuffer m =
     bytesBlock [0xa] (ContractAddress m)
     @ bytesBlock [0x12] (Bloom m)
     @ lenDelim [0x1a] (TransactionLogs_MarshalToSizedBuffer (TxLogs m))
     @ bytesBlock [0x22] (Ret m)
     @ boolBlock [0x28] (Reverted m)
     @ varintBlock [0x30] (GasUsed m)"

definition TxResult_Marshal :: "TxResult \<Rightarrow> error + byte list" where
  "TxResult_Marshal m = marshalWith (TxResult_Size m) (TxResult_MarshalToSizedBuffer m)"

definition TxResult_field ::
  "byte list \<Rightarrow> nat \<Rightarrow> nat \<Rightarrow> int \<Rightarrow> nat \<Rightarrow> TxResult \<Rightarrow> error + (TxResult \<times> nat)" where
  "TxResult_field dAtA preIndex iNdEx fieldNum wireType m =
     (if fieldNum = 1 then
        store (fieldBytes dAtA iNdEx wireType) (\<lambda>s. m\<lparr>ContractAddress := s\<rparr>)
      else if fieldNum = 2 then
        store (fieldBytes dAtA iNdEx wireType) (\<lambda>s. m\<lparr>Bloom := s\<rparr>)
      else if fieldNum = 3 then
        storeE (fieldBytes dAtA iNdEx wireType)
          (\<lambda>bs. case TransactionLogs_Unmarshal bs (TxLogs m) of
                   Inl e \<Rightarrow> Inl e
                 | Inr t \<Rightarrow> Inr (m\<lparr>TxLogs := t\<rparr>))
      else if fieldNum = 4 then
        store (fieldBytes dAtA iNdEx wireType) (\<lambda>s. m\<lparr>Ret := s\<rparr>)
      else if fieldNum = 5 then
        store (fieldVarint dAtA iNdEx wireType) (\<lambda>v :: uint64. m\<lparr>Reverted := (v \<noteq> 0)\<rparr>)
      else if fieldNum = 6 then
        store (fieldVarint dAtA iNdEx wireType) (\<lambda>v. m\<lparr>GasUsed := v\<rparr>)
      else unknownField dAtA preIndex m)"

definition TxResult_step ::
  "byte list \<Rightarrow> nat \<Rightarrow> TxResult \<Rightarrow> error + (TxResult \<times> nat)" where
  "TxResult_step dAtA iNdEx m =
     (case readTag dAtA iNdEx of
        Inl e \<Rightarrow> Inl e
      | Inr (fieldNum, wireType, iNdEx') \<Rightarrow>
          TxResult_field dAtA iNdEx iNdEx' fieldNum wireType m)"

lemma TxResult_field_advance:
  "TxResult_field dAtA pre i fn wt m = Inr (m', j) \<Longrightarrow> pre < i \<Longrightarrow> i \<le> length dAtA
     \<Longrightarrow> pre < j \<and> j \<le> length dAtA"
  unfolding TxResult_field_def
  by (auto split: if_splits dest!: storeD storeED field_advance unknownField_advance)

lemma TxResult_step_advance:
  "TxResult_step dAtA i m = Inr (m', j) \<Longrightarrow> i < j \<and> j \<le> length dAtA"
  unfolding TxResult_step_def
  by (auto split: sum.splits prod.splits dest!: readTag_advance TxResult_field_advance)

function TxResult_loop :: "byte list \<Rightarrow> nat \<Rightarrow> TxResult \<Rightarrow> error + TxResult" where
  "TxResult_loop dAtA iNdEx m =
     (if iNdEx < length dAtA then
        (case TxResult_step dAtA iNdEx m of
           Inl e \<Rightarrow> Inl e
         | Inr (m', iNdEx') \<Rightarrow> TxResult_loop dAtA iNdEx' m')
      else if length dAtA < iNdEx then Inl ErrUnexpectedEOF
      else Inr m)"
  by pat_completeness auto
termination
  by (relation "measure (\<lambda>(d, i, m). length d - i)") (auto dest!: TxResult_step_advance)

declare TxResult_loop.simps [simp del]

definition TxResult_Unmarshal :: "byte list \<Rightarrow> TxResult \<Rightarrow> error + TxResult" where
  "TxResult_Unmarshal dAtA m = TxResult_loop dAtA 0 m"

subsection \<open>ChainConfig\<close>

text \<open>
  A \<open>*math.Int\<close> field is \<open>None\<close> when the pointer is \<open>nil\<close>. Fields 17 and above have
  two-byte tags.
\<close>

record ChainConfig =
  HomesteadBlock :: "int option"
  DAOForkBlock :: "int option"
  DAOForkSupport :: bool
  EIP150Block :: "int option"
  EIP150Hash :: gostring
  EIP155Block :: "int option"
  EIP158Block :: "int option"
  ByzantiumBlock :: "int option"
  ConstantinopleBlock :: "int option"
  PetersburgBlock :: "int option"
  IstanbulBlock :: "int option"
  MuirGlacierBlock :: "int option"
  BerlinBlock :: "int option"
  LondonBlock :: "int option"
  ArrowGlacierBlock :: "int option"
  GrayGlacierBlock :: "int option"
  MergeNetsplitBlock :: "int option"
  ShanghaiBlock :: "int option"
  CancunBlock :: "int option"

definition ChainConfig_zero :: ChainConfig where
  "ChainConfig_zero = \<lparr>HomesteadBlock = None,
     DAOForkBlock = None,
     DAOForkSupport = False,
     EIP150Block = None,
     EIP150Hash = [],
     EIP155Block = None,
     EIP158Block = None,
     ByzantiumBlock = None,
     ConstantinopleBlock = None,
     PetersburgBlock = None,
     IstanbulBlock = None,
     MuirGlacierBlock = None,
     BerlinBlock = None,
     LondonBlock = None,
     ArrowGlacierBlock = None,
     GrayGlacierBlock = None,
     MergeNetsplitBlock = None,
     ShanghaiBlock = None,
     CancunBlock = None\<rparr>"

definition ChainConfig_Size :: "int_codec \<Rightarrow> ChainConfig \<Rightarrow> nat" where
  "ChainConfig_Size ic m =
     optIntSize ic 1 (HomesteadBlock m)
     + optIntSize ic 1 (DAOForkBlock m)
     + boolSize (DAOForkSupport m)
     + optIntSize ic 1 (EIP150Block m)
     + bytesSize 1 (EIP150Hash m)
     + optIntSize ic 1 (EIP155Block m)
     + optIntSize ic 1 (EIP158Block m)
     + optIntSize ic 1 (ByzantiumBlock m)
     + optIntSize ic 1 (ConstantinopleBlock m)
     + optIntSize ic 1 (PetersburgBlock m)
     + optIntSize ic 1 (IstanbulBlock m)
     + optIntSize ic 1 (MuirGlacierBlock m)
     + optIntSize ic 1 (BerlinBlock m)
     + optIntSize ic 2 (LondonBlock m)
     + optIntSize ic 2 (ArrowGlacierBlock m)
     + optIntSize ic 2 (GrayGlacierBlock m)
     + optIntSize ic 2 (MergeNetsplitBlock m)
     + optIntSize ic 2 (ShanghaiBlock m)
     + optIntSize ic 2 (CancunBlock m)"

definition ChainConfig_MarshalToSizedBuffer :: "int_codec \<Rightarrow> ChainConfig \<Rightarrow> byte list" where
  "ChainConfig_MarshalToSizedBuffer ic m =
     optIntBlock ic [0xa] (HomesteadBlock m)
     @ optIntBlock ic [0x12] (DAOForkBlock m)
     @ boolBlock [0x18] (DAOForkSupport m)
     @ optIntBlock ic [0x22] (EIP150Block m)
     @ bytesBlock [0x2a] (EIP150Hash m)
     @ optIntBlock ic [0x32] (EIP155Block m)
     @ optIntBlock ic [0x3a] (EIP158Block m)
     @ optIntBlock ic [0x42] (ByzantiumBlock m)
     @ optIntBlock ic [0x4a] (ConstantinopleBlock m)
     @ optIntBlock ic [0x52] (PetersburgBlock m)
     @ optIntBlock ic [0x5a] (IstanbulBlock m)
     @ optIntBlock ic [0x62] (MuirGlacierBlock m)
     @ optIntBlock ic [0x6a] (BerlinBlock m)
     @ optIntBlock ic [0x8a, 0x1] (LondonBlock m)
     @ optIntBlock ic [0x92, 0x1] (ArrowGlacierBlock m)
     @ optIntBlock ic [0xa2, 0x1] (GrayGlacierBlock m)
     @ optIntBlock ic [0xaa, 0x1] (MergeNetsplitBlock m)
     @ optIntBlock ic [0xb2, 0x1] (ShanghaiBlock m)
     @ optIntBlock ic [0xba, 0x1] (CancunBlock m)"

definition ChainConfig_Marshal :: "int_codec \<Rightarrow> ChainConfig \<Rightarrow> error + byte list" where
  "ChainConfig_Marshal ic m =
     marshalWith (ChainConfig_Size ic m) (ChainConfig_MarshalToSizedBuffer ic m)"

definition ChainConfig_field ::
  "int_codec \<Rightarrow> byte list \<Rightarrow> nat \<Rightarrow> nat \<Rightarrow> int \<Rightarrow> nat \<Rightarrow> ChainConfig
     \<Rightarrow> error + (ChainConfig \<times> nat)" where
  "ChainConfig_field ic dAtA preIndex iNdEx fieldNum wireType m =
     (if fieldNum = 1 then
        store (fieldInt ic dAtA iNdEx wireType) (\<lambda>v. m\<lparr>HomesteadBlock := v\<rparr>)
      else if fieldNum = 2 then
        store (fieldInt ic dAtA iNdEx wireType) (\<lambda>v. m\<lparr>DAOForkBlock := v\<rparr>)
      else if fieldNum = 3 then
        store (fieldVarint dAtA iNdEx wireType)
          (\<lambda>v :: uint64. m\<lparr>DAOForkSupport := (v \<noteq> 0)\<rparr>)
      else if fieldNum = 4 then
        store (fieldInt ic dAtA iNdEx wireType) (\<lambda>v. m\<lparr>EIP150Block := v\<rparr>)
      else if fieldNum = 5 then
        store (fieldBytes dAtA iNdEx wireType) (\<lambda>s. m\<lparr>EIP150Hash := s\<rparr>)
      else if fieldNum = 6 then
        store (fieldInt ic dAtA iNdEx wireType) (\<lambda>v. m\<lparr>EIP155Block := v\<rparr>)
      else if fieldNum = 7 then
        store (fieldInt ic dAtA iNdEx wireType) (\<lambda>v. m\<lparr>EIP158Block := v\<rparr>)
      else if fieldNum = 8 then
        store (fieldInt ic dAtA iNdEx wireType) (\<lambda>v. m\<lparr>ByzantiumBlock := v\<rparr>)
      else if fieldNum = 9 then
        store (fieldInt ic dAtA iNdEx wireType) (\<lambda>v. m\<lparr>ConstantinopleBlock := v\<rparr>)
      else if fieldNum = 10 then
        store (fieldInt ic dAtA iNdEx wireType) (\<lambda>v. m\<lparr>PetersburgBlock := v\<rparr>)
      else if fieldNum = 11 then
        store (fieldInt ic dAtA iNdEx wireType) (\<lambda>v. m\<lparr>IstanbulBlock := v\<rparr>)
      else if fieldNum = 12 then
        store (fieldInt ic dAtA iNdEx wireType) (\<lambda>v. m\<lparr>MuirGlacierBlock := v\<rparr>)
      else if fieldNum = 13 then
        store (fieldInt ic dAtA iNdEx wireType) (\<lambda>v. m\<lparr>BerlinBlock := v\<rparr>)
      else if fieldNum = 17 then
        store (fieldInt ic dAtA iNdEx wireType) (\<lambda>v. m\<lparr>LondonBlock := v\<rparr>)
      else if fieldNum = 18 then
        store (fieldInt ic dAtA iNdEx wireType) (\<lambda>v. m\<lparr>ArrowGlacierBlock := v\<rparr>)
      else if fieldNum = 20 then
        store (fieldInt ic dAtA iNdEx wireType) (\<lambda>v. m\<lparr>GrayGlacierBlock := v\<rparr>)
      else if fieldNum = 21 then
        store (fieldInt ic dAtA iNdEx wireType) (\<lambda>v. m\<lparr>MergeNetsplitBlock := v\<rparr>)
      else if fieldNum = 22 then
        store (fieldInt ic dAtA iNdEx wireType) (\<lambda>v. m\<lparr>ShanghaiBlock := v\<rparr>)
      else if fieldNum = 23 then
        store (fieldInt ic dAtA iNdEx wireType) (\<lambda>v. m\<lparr>CancunBlock := v\<rparr>)
      else unknownField dAtA preIndex m)"

definition ChainConfig_step ::
  "int_codec \<Rightarrow> byte list \<Rightarrow> nat \<Rightarrow> ChainConfig \<Rightarrow> error + (ChainConfig \<times> nat)" where
  "ChainConfig_step ic dAtA iNdEx m =
     (case readTag dAtA iNdEx of
        Inl e \<Rightarrow> Inl e
      | Inr (fieldNum, wireType, iNdEx') \<Rightarrow>
          ChainConfig_field ic dAtA iNdEx iNdEx' fieldNum wireType m)"

lemma ChainConfig_field_advance:
  "ChainConfig_field ic dAtA pre i fn wt m = Inr (m', j) \<Longrightarrow> pre < i \<Longrightarrow> i \<le> length dAtA
     \<Longrightarrow> pre < j \<and> j \<le> length dAtA"
  unfolding ChainConfig_field_def
  by (auto split: if_splits dest!: storeD storeED field_advance unknownField_advance)

lemma ChainConfig_step_advance:
  "ChainConfig_step ic dAtA i m = Inr (m', j) \<Longrightarrow> i < j \<and> j \<le> length dAtA"
  unfolding ChainConfig_step_def
  by (auto split: sum.splits prod.splits dest!: readTag_advance ChainConfig_field_advance)

function ChainConfig_loop :: "int_codec \<Rightarrow> byte list \<Rightarrow> nat \<Rightarrow> ChainConfig \<Rightarrow> error + ChainConfig" where
  "ChainConfig_loop ic dAtA iNdEx m =
     (if iNdEx < length dAtA then
        (case ChainConfig_step ic dAtA iNdEx m of
           Inl e \<Rightarrow> Inl e
         | Inr (m', iNdEx') \<Rightarrow> ChainConfig_loop ic dAtA iNdEx' m')
      else if length dAtA < iNdEx then Inl ErrUnexpectedEOF
      else Inr m)"
  by pat_completeness auto
termination
  by (relation "measure (\<lambda>(c, d, i, m). length d - i)")
     (auto dest!: ChainConfig_step_advance)

declare ChainConfig_loop.simps [simp del]

definition ChainConfig_Unmarshal :: "int_codec \<Rightarrow> byte list \<Rightarrow> ChainConfig \<Rightarrow> error + ChainConfig" where
  "ChainConfig_Unmarshal ic dAtA m = ChainConfig_loop ic dAtA 0 m"

subsection \<open>Params\<close>

text \<open>
  \<open>ExtraEIPs\<close> is a \<open>[]int64\<close>; the elements are kept as 64-bit words (the codec only
  moves their bits: \<open>uint64(num1)\<close> on the way out, \<open>int64(b&0x7F) << shift\<close> on the way in).
  \<open>ChainConfig\<close> is embedded by value, so its block is written unconditionally.
\<close>

record Params =
  EvmDenom :: gostring
  EnableCreate :: bool
  EnableCall :: bool
  ExtraEIPs :: "uint64 list"
  ChainConfig :: ChainConfig
  AllowUnprotectedTxs :: bool

definition Params_zero :: Params where
  "Params_zero = \<lparr>EvmDenom = [], EnableCreate = False, EnableCall = False, ExtraEIPs = [],
     ChainConfig = ChainConfig_zero, AllowUnprotectedTxs = False\<rparr>"

definition packedSize :: "uint64 list \<Rightarrow> nat" where
  "packedSize xs =
     (if 0 < length xs then
        (let l = (\<Sum>e\<leftarrow>xs. sovEvm e) in 1 + sovEvm (of_nat l) + l)
      else 0)"

definition Params_Size :: "int_codec \<Rightarrow> Params \<Rightarrow> nat" where
  "Params_Size ic m =
     bytesSize 1 (EvmDenom m)
     + boolSize (EnableCreate m)
     + boolSize (EnableCall m)
     + packedSize (ExtraEIPs m)
     + sizeLenDelim 1 (ChainConfig_Size ic (ChainConfig m))
     + boolSize (AllowUnprotectedTxs m)"

definition Params_MarshalToSizedBuffer :: "int_codec \<Rightarrow> Params \<Rightarrow> byte list" where
  "Params_MarshalToSizedBuffer ic m =
     bytesBlock [0xa] (EvmDenom m)
     @ boolBlock [0x10] (EnableCreate m)
     @ boolBlock [0x18] (EnableCall m)
     @ packedBlock [0x22] (ExtraEIPs m)
     @ lenDelim [0x2a] (ChainConfig_MarshalToSizedBuffer ic (ChainConfig m))
     @ boolBlock [0x30] (AllowUnprotectedTxs m)"

definition Params_Marshal :: "int_codec \<Rightarrow> Params \<Rightarrow> error + byte list" where
  "Params_Marshal ic m = marshalWith (Params_Size ic m) (Params_MarshalToSizedBuffer ic m)"

definition Params_field ::
  "int_codec \<Rightarrow> byte list \<Rightarrow> nat \<Rightarrow> nat \<Rightarrow> int \<Rightarrow> nat \<Rightarrow> Params
     \<Rightarrow> error + (Params \<times> nat)" where
  "Params_field ic dAtA preIndex iNdEx fieldNum wireType m =
     (if fieldNum = 1 then
        store (fieldBytes dAtA iNdEx wireType) (\<lambda>s. m\<lparr>EvmDenom := s\<rparr>)
      else if fieldNum = 2 then
        store (fieldVarint dAtA iNdEx wireType)
          (\<lambda>v :: uint64. m\<lparr>EnableCreate := (v \<noteq> 0)\<rparr>)
      else if fieldNum = 3 then
        store (fieldVarint dAtA iNdEx wireType)
          (\<lambda>v :: uint64. m\<lparr>EnableCall := (v \<noteq> 0)\<rparr>)
      else if fieldNum = 4 then
        store (fieldPacked dAtA iNdEx wireType) (\<lambda>vs. m\<lparr>ExtraEIPs := ExtraEIPs m @ vs\<rparr>)
      else if fieldNum = 5 then
        storeE (fieldBytes dAtA iNdEx wireType)
          (\<lambda>bs. case ChainConfig_Unmarshal ic bs (ChainConfig m) of
                   Inl e \<Rightarrow> Inl e
                 | Inr c \<Rightarrow> Inr (m\<lparr>ChainConfig := c\<rparr>))
      else if fieldNum = 6 then
        store (fieldVarint dAtA iNdEx wireType)
          (\<lambda>v :: uint64. m\<lparr>AllowUnprotectedTxs := (v \<noteq> 0)\<rparr>)
      else unknownField dAtA preIndex m)"

definition Params_step ::
  "int_codec \<Rightarrow> byte list \<Rightarrow> nat \<Rightarrow> Params \<Rightarrow> error + (Params \<times> nat)" where
  "Params_step ic dAtA iNdEx m =
     (case readTag dAtA iNdEx of
        Inl e \<Rightarrow> Inl e
      | Inr (fieldNum, wireType, iNdEx') \<Rightarrow>
          Params_field ic dAtA iNdEx iNdEx' fieldNum wireType m)"

lemma Params_field_advance:
  "Params_field ic dAtA pre i fn wt m = Inr (m', j) \<Longrightarrow> pre < i \<Longrightarrow> i \<le> length dAtA
     \<Longrightarrow> pre < j \<and> j \<le> length dAtA"
  unfolding Params_field_def
  by (auto split: if_splits dest!: storeD storeED field_advance unknownField_advance)

lemma Params_step_advance:
  "Params_step ic dAtA i m = Inr (m', j) \<Longrightarrow> i < j \<and> j \<le> length dAtA"
  unfolding Params_step_def
  by (auto split: sum.splits prod.splits dest!: readTag_advance Params_field_advance)

function Params_loop :: "int_codec \<Rightarrow> byte list \<Rightarrow> nat \<Rightarrow> Params \<Rightarrow> error + Params" where
  "Params_loop ic dAtA iNdEx m =
     (if iNdEx < length dAtA then
        (case Params_step ic dAtA iNdEx m of
           Inl e \<Rightarrow> Inl e
         | Inr (m', iNdEx') \<Rightarrow> Params_loop ic dAtA iNdEx' m')
      else if length dAtA < iNdEx then Inl ErrUnexpectedEOF
      else Inr m)"
  by pat_completeness auto
termination
  by (relation "measure (\<lambda>(c, d, i, m). length d - i)")
     (auto dest!: Params_step_advance)

declare Params_loop.simps [simp del]

definition Params_Unmarshal :: "int_codec \<Rightarrow> byte list \<Rightarrow> Params \<Rightarrow> error + Params" where
  "Params_Unmarshal ic dAtA m = Params_loop ic dAtA 0 m"

subsection \<open>TraceConfig\<close>

text \<open>
  \<open>Limit\<close> is an \<open>int32\<close>: it is written as \<open>uint64(m.Limit)\<close> (sign-extended) and read
  by \<open>m.Limit |= int32(b&0x7F) << shift\<close>. \<open>Overrides\<close> is a \<open>*ChainConfig\<close>; decoding
  allocates it when it is \<open>nil\<close> and merges into it otherwise.
\<close>

record TraceConfig =
  Tracer :: gostring
  Timeout :: gostring
  Reexec :: uint64
  DisableStack :: bool
  DisableStorage :: bool
  Debug :: bool
  Limit :: "32 word"
  Overrides :: "ChainConfig option"
  EnableMemory :: bool
  EnableReturnData :: bool
  TracerJsonConfig :: gostring

definition int32Block :: "byte list \<Rightarrow> 32 word \<Rightarrow> byte list" where
  "int32Block tag x = (if x \<noteq> 0 then tag @ encodeVarintEvm (scast x) else [])"

definition int32Size :: "32 word \<Rightarrow> nat" where
  "int32Size x = (if x \<noteq> 0 then 1 + sovEvm (scast x) else 0)"

definition TraceConfig_zero :: TraceConfig where
  "TraceConfig_zero = \<lparr>Tracer = [], Timeout = [], Reexec = 0, DisableStack = False,
     DisableStorage = False, Debug = False, Limit = 0, Overrides = None,
     EnableMemory = False, EnableReturnData = False, TracerJsonConfig = []\<rparr>"

definition TraceConfig_Size :: "int_codec \<Rightarrow> TraceConfig \<Rightarrow> nat" where
  "TraceConfig_Size ic m =
     bytesSize 1 (Tracer m)
     + bytesSize 1 (Timeout m)
     + varintSize (Reexec m)
     + boolSize (DisableStack m)
     + boolSize (DisableStorage m)
     + boolSize (Debug m)
     + int32Size (Limit m)
     + (case Overrides m of None \<Rightarrow> 0 | Some c \<Rightarrow> sizeLenDelim 1 (ChainConfig_Size ic c))
     + boolSize (EnableMemory m)
     + boolSize (EnableReturnData m)
     + bytesSize 1 (TracerJsonConfig m)"

definition TraceConfig_MarshalToSizedBuffer :: "int_codec \<Rightarrow> TraceConfig \<Rightarrow> byte list" where
  "TraceConfig_MarshalToSizedBuffer ic m =
     bytesBlock [0xa] (Tracer m)
     @ bytesBlock [0x12] (Timeout m)
     @ varintBlock [0x18] (Reexec m)
     @ boolBlock [0x28] (DisableStack m)
     @ boolBlock [0x30] (DisableStorage m)
     @ boolBlock [0x40] (Debug m)
     @ int32Block [0x48] (Limit m)
     @ (case Overrides m of
          None \<Rightarrow> []
        | Some c \<Rightarrow> lenDelim [0x52] (ChainConfig_MarshalToSizedBuffer ic c))
     @ boolBlock [0x58] (EnableMemory m)
     @ boolBlock [0x60] (EnableReturnData m)
     @ bytesBlock [0x6a] (TracerJsonConfig m)"

definition TraceConfig_Marshal :: "int_codec \<Rightarrow> TraceConfig \<Rightarrow> error + byte list" where
  "TraceConfig_Marshal ic m =
     marshalWith (TraceConfig_Size ic m) (TraceConfig_MarshalToSizedBuffer ic m)"

definition TraceConfig_field ::
  "int_codec \<Rightarrow> byte list \<Rightarrow> nat \<Rightarrow> nat \<Rightarrow> int \<Rightarrow> nat \<Rightarrow> TraceConfig
     \<Rightarrow> error + (TraceConfig \<times> nat)" where
  "TraceConfig_field ic dAtA preIndex iNdEx fieldNum wireType m =
     (if fieldNum = 1 then
        store (fieldBytes dAtA iNdEx wireType) (\<lambda>s. m\<lparr>Tracer := s\<rparr>)
      else if fieldNum = 2 then
        store (fieldBytes dAtA iNdEx wireType) (\<lambda>s. m\<lparr>Timeout := s\<rparr>)
      else if fieldNum = 3 then
        store (fieldVarint dAtA iNdEx wireType) (\<lambda>v. m\<lparr>Reexec := v\<rparr>)
      else if fieldNum = 5 then
        store (fieldVarint dAtA iNdEx wireType)
          (\<lambda>v :: uint64. m\<lparr>DisableStack := (v \<noteq> 0)\<rparr>)
      else if fieldNum = 6 then
        store (fieldVarint dAtA iNdEx wireType)
          (\<lambda>v :: uint64. m\<lparr>DisableStorage := (v \<noteq> 0)\<rparr>)
      else if fieldNum = 8 then
        store (fieldVarint dAtA iNdEx wireType)
          (\<lambda>v :: uint64. m\<lparr>Debug := (v \<noteq> 0)\<rparr>)
      else if fieldNum = 9 then
        store (fieldVarint dAtA iNdEx wireType) (\<lambda>v. m\<lparr>Limit := v\<rparr>)
      else if fieldNum = 10 then
        storeE (fieldBytes dAtA iNdEx wireType)
          (\<lambda>bs. case ChainConfig_Unmarshal ic bs
                        (case Overrides m of None \<Rightarrow> ChainConfig_zero | Some c \<Rightarrow> c) of
                   Inl e \<Rightarrow> Inl e
                 | Inr c \<Rightarrow> Inr (m\<lparr>Overrides := Some c\<rparr>))
      else if fieldNum = 11 then
        store (fieldVarint dAtA iNdEx wireType)
          (\<lambda>v :: uint64. m\<lparr>EnableMemory := (v \<noteq> 0)\<rparr>)
      else if fieldNum = 12 then
        store (fieldVarint dAtA iNdEx wireType)
          (\<lambda>v :: uint64. m\<lparr>EnableReturnData := (v \<noteq> 0)\<rparr>)
      else if fieldNum = 13 then
        store (fieldBytes dAtA iNdEx wireType) (\<lambda>s. m\<lparr>TracerJsonConfig := s\<rparr>)
      else unknownField dAtA preIndex m)"

definition TraceConfig_step ::
  "int_codec \<Rightarrow> byte list \<Rightarrow> nat \<Rightarrow> TraceConfig \<Rightarrow> error + (TraceConfig \<times> nat)" where
  "TraceConfig_step ic dAtA iNdEx m =
     (case readTag dAtA iNdEx of
        Inl e \<Rightarrow> Inl e
      | Inr (fieldNum, wireType, iNdEx') \<Rightarrow>
          TraceConfig_field ic dAtA iNdEx iNdEx' fieldNum wireType m)"

lemma TraceConfig_field_advance:
  "TraceConfig_field ic dAtA pre i fn wt m = Inr (m', j) \<Longrightarrow> pre < i \<Longrightarrow> i \<le> length dAtA
     \<Longrightarrow> pre < j \<and> j \<le> length dAtA"
  unfolding TraceConfig_field_def
  by (auto split: if_splits dest!: storeD storeED field_advance unknownField_advance)

lemma TraceConfig_step_advance:
  "TraceConfig_step ic dAtA i m = Inr (m', j) \<Longrightarrow> i < j \<and> j \<le> length dAtA"
  unfolding TraceConfig_step_def
  by (auto split: sum.splits prod.splits dest!: readTag_advance TraceConfig_field_advance)

function TraceConfig_loop :: "int_codec \<Rightarrow> byte list \<Rightarrow> nat \<Rightarrow> TraceConfig \<Rightarrow> error + TraceConfig" where
  "TraceConfig_loop ic dAtA iNdEx m =
     (if iNdEx < length dAtA then
        (case TraceConfig_step ic dAtA iNdEx m of
           Inl e \<Rightarrow> Inl e
         | Inr (m', iNdEx') \<Rightarrow> TraceConfig_loop ic dAtA iNdEx' m')
      else if length dAtA < iNdEx then Inl ErrUnexpectedEOF
      else Inr m)"
  by pat_completeness auto
termination
  by (relation "measure (\<lambda>(c, d, i, m). length d - i)")
     (auto dest!: TraceConfig_step_advance)

declare TraceConfig_loop.simps [simp del]

definition TraceConfig_Unmarshal :: "int_codec \<Rightarrow> byte list \<Rightarrow> TraceConfig \<Rightarrow> error + TraceConfig" where
  "TraceConfig_Unmarshal ic dAtA m = TraceConfig_loop ic dAtA 0 m"

section \<open>Tags\<close>

text \<open>
  The tag of a field: the varint of \<open>(field_number << 3) | wire_kind\<close>. The generated code
  writes its tags as byte literals; \<open>tag_literals\<close> identifies each literal with the tag it
  is.
\<close>

definition tagOf :: "nat \<Rightarrow> nat \<Rightarrow> byte list" where
  "tagOf fieldNum wireType =
     encodeVarintEvm (push_bit 3 (of_nat fieldNum) OR of_nat wireType)"

lemma bit_nat_less: "(x::nat) < 2 ^ k \<Longrightarrow> bit x n \<Longrightarrow> n < k"
proof (rule ccontr)
  assume a: "x < 2 ^ k" "bit x n" "\<not> n < k"
  then have "(2::nat) ^ k \<le> 2 ^ n" by simp
  with a(1) have "x < 2 ^ n" by linarith
  then have "x div 2 ^ n = 0" by simp
  with a(2) show False by (simp add: bit_iff_odd)
qed

lemma bit_of_nat_less:
  "x < 2 ^ k \<Longrightarrow> bit (of_nat x :: 'a::len word) n \<Longrightarrow> n < k"
  by (auto simp add: bit_simps dest: bit_nat_less)

lemma tag_drop:
  assumes "wt < 8"
  shows "drop_bit 3 (push_bit 3 a OR of_nat wt :: uint64) = take_bit 61 a"
proof (rule bit_word_eqI)
  fix n assume "n < LENGTH(64)"
  have "\<not> bit (of_nat wt :: uint64) (3 + n)"
    using bit_of_nat_less[of wt 3 "3 + n"] assms by auto
  then show "bit (drop_bit 3 (push_bit 3 a OR of_nat wt :: uint64)) n = bit (take_bit 61 a) n"
    by (auto simp add: bit_simps)
qed

lemma tag_and7:
  assumes "wt < 8"
  shows "(push_bit 3 a OR of_nat wt :: uint64) AND 0x7 = of_nat wt"
proof -
  have e: "(7::uint64) = mask 3" by (simp add: mask_eq_exp_minus_1)
  have "(push_bit 3 a OR of_nat wt :: uint64) AND mask 3 = of_nat wt"
  proof (rule bit_word_eqI)
    fix n assume n: "n < LENGTH(64)"
    have "bit wt n \<Longrightarrow> n < 3"
      using bit_nat_less[of wt 3 n] assms by auto
    then show "bit ((push_bit 3 a OR of_nat wt :: uint64) AND mask 3) n
        = bit (of_nat wt :: uint64) n"
      using n by (auto simp add: bit_simps)
  qed
  then show ?thesis by (simp only: e)
qed

lemma tag_fieldNum:
  assumes "fn < 2 ^ 31" "wt < 8"
  shows "sint (ucast (drop_bit 3 (push_bit 3 (of_nat fn) OR of_nat wt :: uint64)) :: 32 word)
    = int fn"
proof -
  have "(ucast (take_bit 61 (of_nat fn :: uint64)) :: 32 word) = of_nat fn"
    by (rule bit_word_eqI) (auto simp add: bit_simps)
  moreover have "sint (of_nat fn :: 32 word) = int fn"
    using assms(1) by (simp add: signed_of_nat signed_take_bit_int_eq_self)
  ultimately show ?thesis by (simp only: tag_drop[OF assms(2)])
qed

lemma tag_wireType:
  assumes "wt < 8"
  shows "unat ((push_bit 3 a OR of_nat wt :: uint64) AND 0x7) = wt"
  using assms by (simp only: tag_and7[OF assms]) (simp add: unat_of_nat)

lemma tagOf_nonempty: "tagOf fn wt \<noteq> []"
  by (simp add: tagOf_def encodeVarintEvm_nonempty)

lemma readTag_tagOf:
  assumes "0 < fn" "fn < 2 ^ 31" "wt < 8" "wt \<noteq> 4"
  shows "readTag (pre @ tagOf fn wt @ rest) (length pre)
    = Inr (int fn, wt, length pre + length (tagOf fn wt))"
proof -
  let ?w = "push_bit 3 (of_nat fn) OR of_nat wt :: uint64"
  have r: "readVarint (pre @ encodeVarintEvm ?w @ rest) (length pre)
     = Inr (?w, length pre + sovEvm ?w)"
    using readVarint_encode[of pre ?w rest, where 'a=64] by simp
  show ?thesis
    unfolding readTag_def tagOf_def r
    using assms
    by (simp only: Let_def tag_fieldNum[OF assms(2,3)] tag_wireType[OF assms(3)]
          length_encodeVarintEvm sum.case prod.case) simp
qed

lemma tag_literals:
  "[0xa] = tagOf 1 2" "[0x10] = tagOf 2 0" "[0x12] = tagOf 2 2" "[0x18] = tagOf 3 0"
  "[0x1a] = tagOf 3 2" "[0x20] = tagOf 4 0" "[0x22] = tagOf 4 2" "[0x28] = tagOf 5 0"
  "[0x2a] = tagOf 5 2" "[0x30] = tagOf 6 0" "[0x32] = tagOf 6 2" "[0x3a] = tagOf 7 2"
  "[0x40] = tagOf 8 0" "[0x42] = tagOf 8 2" "[0x48] = tagOf 9 0" "[0x4a] = tagOf 9 2"
  "[0x52] = tagOf 10 2" "[0x58] = tagOf 11 0" "[0x5a] = tagOf 11 2" "[0x60] = tagOf 12 0"
  "[0x62] = tagOf 12 2" "[0x6a] = tagOf 13 2" "[0x8a, 0x1] = tagOf 17 2"
  "[0x92, 0x1] = tagOf 18 2" "[0xa2, 0x1] = tagOf 20 2" "[0xaa, 0x1] = tagOf 21 2"
  "[0xb2, 0x1] = tagOf 22 2" "[0xba, 0x1] = tagOf 23 2"
  by (simp_all add: tagOf_def encodeVarintEvm.simps word_le_nat_alt)

section \<open>Reading back what a block wrote\<close>

lemma sint_of_nat_64: "n < 2 ^ 63 \<Longrightarrow> sint (of_nat n :: uint64) = int n"
  by (simp add: signed_of_nat signed_take_bit_int_eq_self)

lemma unat_of_nat_64: "n < 2 ^ 63 \<Longrightarrow> unat (of_nat n :: uint64) = n"
  by (simp add: unat_of_nat)

lemma readLen_encode:
  assumes "length (pre @ encodeVarintEvm (of_nat (length p)) @ p @ rest) < 2 ^ 63"
  shows "readLen (pre @ encodeVarintEvm (of_nat (length p)) @ p @ rest) (length pre)
    = Inr (length pre + sovEvm (of_nat (length p)),
           length pre + sovEvm (of_nat (length p)) + length p)"
proof -
  have lp: "length p < 2 ^ 63" using assms by simp
  have r: "readVarint (pre @ encodeVarintEvm (of_nat (length p)) @ p @ rest) (length pre)
     = Inr (of_nat (length p) :: uint64, length pre + sovEvm (of_nat (length p)))"
    using readVarint_encode[of pre "of_nat (length p)" "p @ rest", where 'a=64] by simp
  show ?thesis
    unfolding readLen_def r
    using assms
    by (simp add: Let_def sint_of_nat_64[OF lp] unat_of_nat_64[OF lp] length_encodeVarintEvm)
qed

lemma slice_append:
  "slice (pre @ p @ rest) (length pre) (length pre + length p) = p"
  by (simp add: slice_def)

lemma fieldBytes_lenDelim:
  assumes "length (pre @ lenDelim tag p @ rest) < 2 ^ 63"
  shows "fieldBytes (pre @ lenDelim tag p @ rest) (length pre + length tag) 2
    = Inr (p, length pre + length (lenDelim tag p))"
proof -
  let ?e = "encodeVarintEvm (of_nat (length p))"
  have d: "pre @ lenDelim tag p @ rest = (pre @ tag) @ ?e @ p @ rest"
    by (simp add: lenDelim_def)
  have r: "readLen ((pre @ tag) @ ?e @ p @ rest) (length (pre @ tag))
    = Inr (length (pre @ tag) + sovEvm (of_nat (length p)),
           length (pre @ tag) + sovEvm (of_nat (length p)) + length p)"
    by (rule readLen_encode) (use assms in \<open>simp add: lenDelim_def\<close>)
  have s: "slice ((pre @ tag) @ ?e @ p @ rest) (length (pre @ tag) + sovEvm (of_nat (length p)))
      (length (pre @ tag) + sovEvm (of_nat (length p)) + length p) = p"
    using slice_append[of "(pre @ tag) @ ?e" p rest]
    by (simp add: length_encodeVarintEvm add.assoc)
  have i: "length pre + length tag = length (pre @ tag)" by simp
  show ?thesis
    unfolding fieldBytes_def d i r
    by (simp only: s sum.case prod.case)
       (simp add: lenDelim_def length_encodeVarintEvm add.assoc)
qed

lemma fieldVarint_encode:
  "fieldVarint (pre @ tag @ encodeVarintEvm v @ rest) (length pre + length tag) 0
    = Inr (ucast v, length pre + length tag + sovEvm v)"
  using readVarint_encode[of "pre @ tag" v rest]
  by (simp add: fieldVarint_def)

lemma packedLoop_encode:
  "packedLoop (pre @ concat (map encodeVarintEvm xs) @ rest) (length pre)
      (length pre + length (concat (map encodeVarintEvm xs))) acc
    = Inr (acc @ xs, length pre + length (concat (map encodeVarintEvm xs)))"
proof (induction xs arbitrary: pre acc)
  case Nil
  show ?case by (subst packedLoop.simps) simp
next
  case (Cons x xs)
  let ?e = "encodeVarintEvm x"
  have r: "readVarint (pre @ ?e @ concat (map encodeVarintEvm xs) @ rest) (length pre)
     = Inr (x, length pre + sovEvm x)"
    using readVarint_encode[of pre x "concat (map encodeVarintEvm xs) @ rest", where 'a=64]
    by simp
  have ih: "packedLoop ((pre @ ?e) @ concat (map encodeVarintEvm xs) @ rest)
      (length (pre @ ?e)) (length (pre @ ?e) + length (concat (map encodeVarintEvm xs)))
      (acc @ [x])
    = Inr ((acc @ [x]) @ xs, length (pre @ ?e) + length (concat (map encodeVarintEvm xs)))"
    by (rule Cons.IH)
  show ?case
    apply (subst packedLoop.simps)
    using ih sovEvm_pos[of x]
    apply (simp add: r length_encodeVarintEvm add.assoc)
    done
qed

lemma fieldPacked_encode:
  assumes "length (pre @ lenDelim tag (concat (map encodeVarintEvm xs)) @ rest) < 2 ^ 63"
  shows "fieldPacked (pre @ lenDelim tag (concat (map encodeVarintEvm xs)) @ rest)
      (length pre + length tag) 2
    = Inr (xs, length pre + length (lenDelim tag (concat (map encodeVarintEvm xs))))"
proof -
  let ?p = "concat (map encodeVarintEvm xs)"
  let ?e = "encodeVarintEvm (of_nat (length ?p))"
  have d: "pre @ lenDelim tag ?p @ rest = (pre @ tag) @ ?e @ ?p @ rest"
    by (simp add: lenDelim_def)
  have r: "readLen ((pre @ tag) @ ?e @ ?p @ rest) (length (pre @ tag))
    = Inr (length (pre @ tag) + sovEvm (of_nat (length ?p)),
           length (pre @ tag) + sovEvm (of_nat (length ?p)) + length ?p)"
    by (rule readLen_encode) (use assms in \<open>simp add: lenDelim_def\<close>)
  have i: "length pre + length tag = length (pre @ tag)" by simp
  have l: "packedLoop (((pre @ tag) @ ?e) @ ?p @ rest) (length ((pre @ tag) @ ?e))
       (length ((pre @ tag) @ ?e) + length ?p) []
     = Inr ([] @ xs, length ((pre @ tag) @ ?e) + length ?p)"
    by (rule packedLoop_encode)
  show ?thesis
    unfolding fieldPacked_def d i r
    using l by (simp add: lenDelim_def length_encodeVarintEvm add.assoc)
qed

section \<open>The decoding loop, generically\<close>

text \<open>
  The eight loops differ only in their \<open>switch fieldNum\<close>. \<open>decoder loop step field\<close> says
  that \<open>loop\<close> is such a loop over \<open>step\<close>, and \<open>step\<close> the tag head followed by \<open>field\<close>;
  the facts about all of them are proved once from it.
\<close>

definition decoder ::
  "(byte list \<Rightarrow> nat \<Rightarrow> 'm \<Rightarrow> error + 'm)
   \<Rightarrow> (byte list \<Rightarrow> nat \<Rightarrow> 'm \<Rightarrow> error + ('m \<times> nat))
   \<Rightarrow> (byte list \<Rightarrow> nat \<Rightarrow> nat \<Rightarrow> int \<Rightarrow> nat \<Rightarrow> 'm \<Rightarrow> error + ('m \<times> nat)) \<Rightarrow> bool" where
  "decoder loop step field \<longleftrightarrow>
     (\<forall>d i m. loop d i m =
        (if i < length d then
           (case step d i m of Inl e \<Rightarrow> Inl e | Inr (m', j) \<Rightarrow> loop d j m')
         else if length d < i then Inl ErrUnexpectedEOF
         else Inr m))
     \<and> (\<forall>d i m. step d i m =
          (case readTag d i of
             Inl e \<Rightarrow> Inl e
           | Inr (fn, wt, i') \<Rightarrow> field d i i' fn wt m))"

lemma decoder_loop_step:
  assumes "decoder loop step field" "i < length d" "step d i m = Inr (m', j)"
  shows "loop d i m = loop d j m'"
  using assms unfolding decoder_def by (metis (no_types, lifting) sum.case(2) prod.case)

lemma decoder_loop_end:
  assumes "decoder loop step field"
  shows "loop d (length d) m = Inr m"
  using assms unfolding decoder_def by (metis less_irrefl)

lemma decoder_step_tag:
  assumes "decoder loop step field" "readTag d i = Inr (fn, wt, i')"
  shows "step d i m = field d i i' fn wt m"
  using assms unfolding decoder_def by (metis (no_types, lifting) sum.case(2) prod.case)

lemma decoder_step_tagOf:
  assumes D: "decoder loop step field"
    and T: "0 < fn" "fn < 2 ^ 31" "wt < 8" "wt \<noteq> 4"
  shows "step (pre @ tagOf fn wt @ rest) (length pre) m
    = field (pre @ tagOf fn wt @ rest) (length pre) (length pre + length (tagOf fn wt))
        (int fn) wt m"
  by (rule decoder_step_tag[OF D readTag_tagOf[OF T]])

text \<open>A length-delimited block whose payload the field accepts.\<close>

lemma loop_lenDelim:
  assumes D: "decoder loop step field"
    and T: "tag = tagOf fn 2" "0 < fn" "fn < 2 ^ 31"
    and F: "\<And>d pre i. field d pre i (int fn) 2 m = storeE (fieldBytes d i 2) g"
    and G: "g p = Inr m'"
    and L: "length (pre @ lenDelim tag p @ rest) < 2 ^ 63"
  shows "loop (pre @ lenDelim tag p @ rest) (length pre) m
    = loop ((pre @ lenDelim tag p) @ rest) (length (pre @ lenDelim tag p)) m'"
proof -
  let ?d = "pre @ lenDelim tag p @ rest"
  let ?r = "encodeVarintEvm (of_nat (length p)) @ p @ rest"
  have d: "?d = pre @ tagOf fn 2 @ ?r" by (simp add: lenDelim_def T(1))
  have st: "step ?d (length pre) m
      = field ?d (length pre) (length pre + length tag) (int fn) 2 m"
    unfolding d using decoder_step_tagOf[OF D T(2,3), of 2 pre ?r m] by (simp add: T(1))
  have fb: "fieldBytes ?d (length pre + length tag) 2
      = Inr (p, length pre + length (lenDelim tag p))"
    by (rule fieldBytes_lenDelim[OF L])
  have s: "step ?d (length pre) m = Inr (m', length pre + length (lenDelim tag p))"
    unfolding st F fb by (simp add: storeE_def G)
  have lt: "length pre < length ?d"
    using tagOf_nonempty[of fn 2] by (cases "tagOf fn 2") (simp_all add: lenDelim_def T(1))
  show ?thesis
    using decoder_loop_step[OF D lt s] by simp
qed

lemma loop_bytesBlock:
  assumes D: "decoder loop step field"
    and T: "tag = tagOf fn 2" "0 < fn" "fn < 2 ^ 31"
    and F: "\<And>d pre i. field d pre i (int fn) 2 m = store (fieldBytes d i 2) upd"
    and Z: "upd [] = m"
    and L: "length (pre @ bytesBlock tag s @ rest) < 2 ^ 63"
  shows "loop (pre @ bytesBlock tag s @ rest) (length pre) m
    = loop ((pre @ bytesBlock tag s) @ rest) (length (pre @ bytesBlock tag s)) (upd s)"
proof (cases "s = []")
  case True
  then show ?thesis by (simp add: bytesBlock_def Z)
next
  case False
  have F': "\<And>d pre i. field d pre i (int fn) 2 m
      = storeE (fieldBytes d i 2) (\<lambda>x. Inr (upd x))"
    unfolding F by (simp add: store_def storeE_def split: sum.splits prod.splits)
  from False have b: "bytesBlock tag s = lenDelim tag s" by (simp add: bytesBlock_def)
  show ?thesis
    unfolding b
    by (rule loop_lenDelim[OF D T F']) (use L b in simp_all)
qed

lemma loop_optIntBlock:
  assumes D: "decoder loop step field"
    and T: "tag = tagOf fn 2" "0 < fn" "fn < 2 ^ 31"
    and F: "\<And>d pre i. field d pre i (int fn) 2 m = store (fieldInt ic d i 2) upd"
    and Z: "upd None = m"
    and V: "\<And>v. x = Some v \<Longrightarrow> Int_Unmarshal ic (Int_Marshal ic v) = Inr v"
    and L: "length (pre @ optIntBlock ic tag x @ rest) < 2 ^ 63"
  shows "loop (pre @ optIntBlock ic tag x @ rest) (length pre) m
    = loop ((pre @ optIntBlock ic tag x) @ rest) (length (pre @ optIntBlock ic tag x)) (upd x)"
proof (cases x)
  case None
  then show ?thesis by (simp add: optIntBlock_def Z)
next
  case (Some v)
  have F': "\<And>d pre i. field d pre i (int fn) 2 m
      = storeE (fieldBytes d i 2)
          (\<lambda>bs. case Int_Unmarshal ic bs of Inl e \<Rightarrow> Inl e | Inr v \<Rightarrow> Inr (upd (Some v)))"
    unfolding F fieldInt_def
    by (simp add: store_def storeE_def split: sum.splits prod.splits)
  have b: "optIntBlock ic tag x = lenDelim tag (Int_Marshal ic v)"
    by (simp add: optIntBlock_def Some)
  show ?thesis
    unfolding b
    by (rule loop_lenDelim[OF D T F']) (use L b V[OF Some] Some in simp_all)
qed

text \<open>Varint blocks.\<close>

lemma loop_varint:
  assumes D: "decoder loop step field"
    and T: "tag = tagOf fn 0" "0 < fn" "fn < 2 ^ 31"
    and F: "\<And>d pre i. field d pre i (int fn) 0 m = store (fieldVarint d i 0) upd"
  shows "loop (pre @ (tag @ encodeVarintEvm v) @ rest) (length pre) m
    = loop ((pre @ tag @ encodeVarintEvm v) @ rest) (length (pre @ tag @ encodeVarintEvm v))
        (upd (ucast v))"
proof -
  let ?d = "pre @ (tag @ encodeVarintEvm v) @ rest"
  let ?r = "encodeVarintEvm v @ rest"
  have d: "?d = pre @ tagOf fn 0 @ ?r" by (simp add: T(1))
  have st: "step ?d (length pre) m
      = field ?d (length pre) (length pre + length tag) (int fn) 0 m"
    unfolding d using decoder_step_tagOf[OF D T(2,3), of 0 pre ?r m] by (simp add: T(1))
  have fv: "fieldVarint ?d (length pre + length tag) 0
      = Inr (ucast v, length pre + length tag + sovEvm v)"
    using fieldVarint_encode[of pre tag v rest] by simp
  have s: "step ?d (length pre) m = Inr (upd (ucast v), length pre + length tag + sovEvm v)"
    unfolding st F fv by (simp add: store_def)
  have lt: "length pre < length ?d"
    using tagOf_nonempty[of fn 0] by (cases "tagOf fn 0") (simp_all add: T(1))
  show ?thesis
    using decoder_loop_step[OF D lt s] by (simp add: length_encodeVarintEvm add.assoc)
qed

lemma loop_varintBlock:
  assumes D: "decoder loop step field"
    and T: "tag = tagOf fn 0" "0 < fn" "fn < 2 ^ 31"
    and F: "\<And>d pre i. field d pre i (int fn) 0 m = store (fieldVarint d i 0) upd"
    and Z: "upd 0 = m"
  shows "loop (pre @ varintBlock tag v @ rest) (length pre) m
    = loop ((pre @ varintBlock tag v) @ rest) (length (pre @ varintBlock tag v)) (upd v)"
proof (cases "v = 0")
  case True
  then show ?thesis by (simp add: varintBlock_def Z)
next
  case False
  then show ?thesis
    using loop_varint[OF D T F, of pre v rest] by (simp add: varintBlock_def)
qed

lemma encodeVarintEvm_1: "encodeVarintEvm 1 = [1]"
  by (simp add: encodeVarintEvm.simps word_le_nat_alt)

lemma loop_boolBlock:
  assumes D: "decoder loop step field"
    and T: "tag = tagOf fn 0" "0 < fn" "fn < 2 ^ 31"
    and F: "\<And>d pre i. field d pre i (int fn) 0 m
              = store (fieldVarint d i 0) (\<lambda>v :: uint64. upd (v \<noteq> 0))"
    and Z: "upd False = m"
  shows "loop (pre @ boolBlock tag b @ rest) (length pre) m
    = loop ((pre @ boolBlock tag b) @ rest) (length (pre @ boolBlock tag b)) (upd b)"
proof (cases b)
  case False
  then show ?thesis by (simp add: boolBlock_def Z)
next
  case True
  then show ?thesis
    using loop_varint[OF D T F, of pre 1 rest]
    by (simp add: boolBlock_def encodeVarintEvm_1)
qed

lemma scast_32_64_eq_0: "(scast (x :: 32 word) :: uint64) = 0 \<longleftrightarrow> x = 0"
proof
  assume "(scast x :: uint64) = 0"
  then have "(ucast (scast x :: uint64) :: 32 word) = 0" by simp
  moreover have "(ucast (scast x :: uint64) :: 32 word) = x"
    by (rule bit_word_eqI) (auto simp add: bit_simps)
  ultimately show "x = 0" by simp
qed simp

lemma ucast_scast_32: "(ucast (scast (x :: 32 word) :: uint64) :: 32 word) = x"
  by (rule bit_word_eqI) (auto simp add: bit_simps)

lemma loop_int32Block:
  assumes D: "decoder loop step field"
    and T: "tag = tagOf fn 0" "0 < fn" "fn < 2 ^ 31"
    and F: "\<And>d pre i. field d pre i (int fn) 0 m
              = store (fieldVarint d i 0) (upd :: 32 word \<Rightarrow> 'm)"
    and Z: "upd 0 = m"
  shows "loop (pre @ int32Block tag x @ rest) (length pre) m
    = loop ((pre @ int32Block tag x) @ rest) (length (pre @ int32Block tag x)) (upd x)"
proof (cases "x = 0")
  case True
  then show ?thesis by (simp add: int32Block_def Z)
next
  case False
  then show ?thesis
    using loop_varint[OF D T F, of pre "scast x" rest]
    by (simp add: int32Block_def ucast_scast_32)
qed

lemma loop_packedBlock:
  assumes D: "decoder loop step field"
    and T: "tag = tagOf fn 2" "0 < fn" "fn < 2 ^ 31"
    and F: "\<And>d pre i. field d pre i (int fn) 2 m = store (fieldPacked d i 2) upd"
    and Z: "upd [] = m"
    and L: "length (pre @ packedBlock tag xs @ rest) < 2 ^ 63"
  shows "loop (pre @ packedBlock tag xs @ rest) (length pre) m
    = loop ((pre @ packedBlock tag xs) @ rest) (length (pre @ packedBlock tag xs)) (upd xs)"
proof (cases "xs = []")
  case True
  then show ?thesis by (simp add: packedBlock_def Z)
next
  case False
  let ?p = "concat (map encodeVarintEvm xs)"
  let ?d = "pre @ lenDelim tag ?p @ rest"
  let ?r = "encodeVarintEvm (of_nat (length ?p)) @ ?p @ rest"
  from False have b: "packedBlock tag xs = lenDelim tag ?p" by (simp add: packedBlock_def)
  have L': "length ?d < 2 ^ 63" using L b by simp
  have d: "?d = pre @ tagOf fn 2 @ ?r" by (simp add: lenDelim_def T(1))
  have st: "step ?d (length pre) m
      = field ?d (length pre) (length pre + length tag) (int fn) 2 m"
    unfolding d using decoder_step_tagOf[OF D T(2,3), of 2 pre ?r m] by (simp add: T(1))
  have fp: "fieldPacked ?d (length pre + length tag) 2
      = Inr (xs, length pre + length (lenDelim tag ?p))"
    by (rule fieldPacked_encode[OF L'])
  have s: "step ?d (length pre) m = Inr (upd xs, length pre + length (lenDelim tag ?p))"
    unfolding st F fp by (simp add: store_def)
  have lt: "length pre < length ?d"
    using tagOf_nonempty[of fn 2] by (cases "tagOf fn 2") (simp_all add: lenDelim_def T(1))
  show ?thesis
    unfolding b using decoder_loop_step[OF D lt s] by simp
qed

section \<open>Size consistency\<close>

text \<open>The number of bytes each block writes is what \<open>Size\<close> adds for it.\<close>

lemma length_lenDelim: "length (lenDelim tag p) = sizeLenDelim (length tag) (length p)"
  by (simp add: lenDelim_def sizeLenDelim_def length_encodeVarintEvm)

lemma length_lenDelim1 [simp]: "length (lenDelim [a] p) = sizeLenDelim 1 (length p)"
  by (simp add: length_lenDelim)

lemma length_lenDelim2 [simp]: "length (lenDelim [a, b] p) = sizeLenDelim 2 (length p)"
  by (simp add: length_lenDelim numeral_2_eq_2)

lemma length_bytesBlock1 [simp]: "length (bytesBlock [a] s) = bytesSize 1 s"
  by (simp add: bytesBlock_def bytesSize_def)

lemma length_bytesBlock2 [simp]: "length (bytesBlock [a, b] s) = bytesSize 2 s"
  by (simp add: bytesBlock_def bytesSize_def)

lemma length_boolBlock1 [simp]: "length (boolBlock [a] b) = boolSize b"
  by (simp add: boolBlock_def boolSize_def)

lemma length_varintBlock1 [simp]: "length (varintBlock [a] v) = varintSize v"
  by (simp add: varintBlock_def varintSize_def length_encodeVarintEvm)

lemma length_int32Block1 [simp]: "length (int32Block [a] x) = int32Size x"
  by (simp add: int32Block_def int32Size_def length_encodeVarintEvm)

lemma length_optIntBlock1 [simp]: "length (optIntBlock ic [a] x) = optIntSize ic 1 x"
  by (simp add: optIntBlock_def optIntSize_def split: option.splits)

lemma length_optIntBlock2 [simp]: "length (optIntBlock ic [a, b] x) = optIntSize ic 2 x"
  by (simp add: optIntBlock_def optIntSize_def split: option.splits)

lemma length_concat_encodeVarintEvm:
  "length (concat (map encodeVarintEvm xs)) = (\<Sum>e\<leftarrow>xs. sovEvm e)"
  by (induction xs) (simp_all add: length_encodeVarintEvm)

lemma length_packedBlock1 [simp]: "length (packedBlock [a] xs) = packedSize xs"
  by (simp add: packedBlock_def packedSize_def length_concat_encodeVarintEvm Let_def
      sizeLenDelim_def)

lemma length_repeated1 [simp]:
  "length (concat (map (\<lambda>e. lenDelim [a] (f e)) xs))
     = (\<Sum>e\<leftarrow>xs. sizeLenDelim 1 (length (f e)))"
  by (induction xs) simp_all

lemma length_repeated_bytes1 [simp]:
  "length (concat (map (lenDelim [a]) xs)) = (\<Sum>s\<leftarrow>xs. sizeLenDelim 1 (length s))"
  by (induction xs) simp_all

lemma marshalWith_exact: "length out = sz \<Longrightarrow> marshalWith sz out = Inr out"
  by (simp add: marshalWith_def)

lemma length_State_MarshalToSizedBuffer [simp]:
  "length (State_MarshalToSizedBuffer m) = State_Size m"
  by (simp add: State_MarshalToSizedBuffer_def State_Size_def)

lemma State_Marshal_eq: "State_Marshal m = Inr (State_MarshalToSizedBuffer m)"
  unfolding State_Marshal_def by (rule marshalWith_exact) simp

lemma length_AccessTuple_MarshalToSizedBuffer [simp]:
  "length (AccessTuple_MarshalToSizedBuffer m) = AccessTuple_Size m"
  by (simp add: AccessTuple_MarshalToSizedBuffer_def AccessTuple_Size_def)

lemma AccessTuple_Marshal_eq: "AccessTuple_Marshal m = Inr (AccessTuple_MarshalToSizedBuffer m)"
  unfolding AccessTuple_Marshal_def by (rule marshalWith_exact) simp

lemma length_Log_MarshalToSizedBuffer [simp]:
  "length (Log_MarshalToSizedBuffer m) = Log_Size m"
  by (simp add: Log_MarshalToSizedBuffer_def Log_Size_def)

lemma Log_Marshal_eq: "Log_Marshal m = Inr (Log_MarshalToSizedBuffer m)"
  unfolding Log_Marshal_def by (rule marshalWith_exact) simp

lemma length_TransactionLogs_MarshalToSizedBuffer [simp]:
  "length (TransactionLogs_MarshalToSizedBuffer m) = TransactionLogs_Size m"
  by (simp add: TransactionLogs_MarshalToSizedBuffer_def TransactionLogs_Size_def)

lemma TransactionLogs_Marshal_eq: "TransactionLogs_Marshal m = Inr (TransactionLogs_MarshalToSizedBuffer m)"
  unfolding TransactionLogs_Marshal_def by (rule marshalWith_exact) simp

lemma length_TxResult_MarshalToSizedBuffer [simp]:
  "length (TxResult_MarshalToSizedBuffer m) = TxResult_Size m"
  by (simp add: TxResult_MarshalToSizedBuffer_def TxResult_Size_def)

lemma TxResult_Marshal_eq: "TxResult_Marshal m = Inr (TxResult_MarshalToSizedBuffer m)"
  unfolding TxResult_Marshal_def by (rule marshalWith_exact) simp

lemma length_ChainConfig_MarshalToSizedBuffer [simp]:
  "length (ChainConfig_MarshalToSizedBuffer ic m) = ChainConfig_Size ic m"
  by (simp add: ChainConfig_MarshalToSizedBuffer_def ChainConfig_Size_def)

lemma ChainConfig_Marshal_eq: "ChainConfig_Marshal ic m = Inr (ChainConfig_MarshalToSizedBuffer ic m)"
  unfolding ChainConfig_Marshal_def by (rule marshalWith_exact) simp

lemma length_Params_MarshalToSizedBuffer [simp]:
  "length (Params_MarshalToSizedBuffer ic m) = Params_Size ic m"
  by (simp add: Params_MarshalToSizedBuffer_def Params_Size_def)

lemma Params_Marshal_eq: "Params_Marshal ic m = Inr (Params_MarshalToSizedBuffer ic m)"
  unfolding Params_Marshal_def by (rule marshalWith_exact) simp

lemma length_TraceConfig_MarshalToSizedBuffer [simp]:
  "length (TraceConfig_MarshalToSizedBuffer ic m) = TraceConfig_Size ic m"
  by (simp add: TraceConfig_MarshalToSizedBuffer_def TraceConfig_Size_def split: option.splits)

lemma TraceConfig_Marshal_eq: "TraceConfig_Marshal ic m = Inr (TraceConfig_MarshalToSizedBuffer ic m)"
  unfolding TraceConfig_Marshal_def by (rule marshalWith_exact) simp

section \<open>Round trip\<close>

text \<open>
  One lemma per field: the decoding loop, started in front of the block of that field at
  any position of any buffer, arrives behind the block with the field set to the encoded
  value. A singular field must still hold its zero value, since an empty block leaves it
  alone. All lengths are below \<open>2 ^ 63\<close>, the range of a Go \<open>int\<close>.
\<close>

definition Int_ok :: "int_codec \<Rightarrow> int option \<Rightarrow> bool" where
  "Int_ok ic x =
     (case x of None \<Rightarrow> True | Some v \<Rightarrow> Int_Unmarshal ic (Int_Marshal ic v) = Inr v)"

lemma Int_okD: "Int_ok ic x \<Longrightarrow> x = Some v \<Longrightarrow> Int_Unmarshal ic (Int_Marshal ic v) = Inr v"
  by (simp add: Int_ok_def)

text \<open>
  A \<open>ChainConfig\<close> is valid for a codec of \<open>math.Int\<close> when each of its block numbers
  survives that codec (the library accepts integers of at most 256 bits).
\<close>

definition ChainConfig_valid :: "int_codec \<Rightarrow> ChainConfig \<Rightarrow> bool" where
  "ChainConfig_valid ic c \<longleftrightarrow>
     Int_ok ic (HomesteadBlock c)
     \<and> Int_ok ic (DAOForkBlock c)
     \<and> Int_ok ic (EIP150Block c)
     \<and> Int_ok ic (EIP155Block c)
     \<and> Int_ok ic (EIP158Block c)
     \<and> Int_ok ic (ByzantiumBlock c)
     \<and> Int_ok ic (ConstantinopleBlock c)
     \<and> Int_ok ic (PetersburgBlock c)
     \<and> Int_ok ic (IstanbulBlock c)
     \<and> Int_ok ic (MuirGlacierBlock c)
     \<and> Int_ok ic (BerlinBlock c)
     \<and> Int_ok ic (LondonBlock c)
     \<and> Int_ok ic (ArrowGlacierBlock c)
     \<and> Int_ok ic (GrayGlacierBlock c)
     \<and> Int_ok ic (MergeNetsplitBlock c)
     \<and> Int_ok ic (ShanghaiBlock c)
     \<and> Int_ok ic (CancunBlock c)"

definition Params_valid :: "int_codec \<Rightarrow> Params \<Rightarrow> bool" where
  "Params_valid ic p \<longleftrightarrow> ChainConfig_valid ic (ChainConfig p)"

definition TraceConfig_valid :: "int_codec \<Rightarrow> TraceConfig \<Rightarrow> bool" where
  "TraceConfig_valid ic t \<longleftrightarrow>
     (case Overrides t of None \<Rightarrow> True | Some c \<Rightarrow> ChainConfig_valid ic c)"

subsection \<open>State\<close>

lemma State_decoder: "decoder State_loop State_step State_field"
  unfolding decoder_def
  by (intro conjI allI) (subst State_loop.simps, simp, simp add: State_step_def)

lemma State_block_Key:
  assumes "length (pre @ bytesBlock [0xa] v @ rest) < 2 ^ 63" and "Key m = []"
  shows "State_loop (pre @ bytesBlock [0xa] v @ rest) (length pre) m
    = State_loop ((pre @ bytesBlock [0xa] v) @ rest) (length (pre @ bytesBlock [0xa] v)) (m\<lparr>Key := v\<rparr>)"
  by (rule loop_bytesBlock[where upd="\<lambda>s. m\<lparr>Key := s\<rparr>" and fn=1 and field="State_field" and m=m, OF State_decoder])
     (use assms in \<open>simp_all add: State_field_def tag_literals\<close>)

lemma State_block_Value:
  assumes "length (pre @ bytesBlock [0x12] v @ rest) < 2 ^ 63" and "Value m = []"
  shows "State_loop (pre @ bytesBlock [0x12] v @ rest) (length pre) m
    = State_loop ((pre @ bytesBlock [0x12] v) @ rest) (length (pre @ bytesBlock [0x12] v)) (m\<lparr>Value := v\<rparr>)"
  by (rule loop_bytesBlock[where upd="\<lambda>s. m\<lparr>Value := s\<rparr>" and fn=2 and field="State_field" and m=m, OF State_decoder])
     (use assms in \<open>simp_all add: State_field_def tag_literals\<close>)

lemma State_chain:
  assumes L: "length (pre @ State_MarshalToSizedBuffer x @ rest) < 2 ^ 63"
  shows "State_loop (pre @ State_MarshalToSizedBuffer x @ rest) (length pre) State_zero
    = State_loop (pre @ State_MarshalToSizedBuffer x @ rest) (length pre + length (State_MarshalToSizedBuffer x)) x"
proof -
  let ?B1 = "bytesBlock [0xa] (Key x)"
  let ?B2 = "bytesBlock [0x12] (Value x)"
  let ?m1 = "State_zero\<lparr>Key := Key x\<rparr>"
  let ?m2 = "?m1\<lparr>Value := Value x\<rparr>"
  have E: "pre @ State_MarshalToSizedBuffer x @ rest = pre @ ?B1 @ ?B2 @ rest"
    by (simp add: State_MarshalToSizedBuffer_def)
  note L' = L[unfolded E]
  have "State_loop (pre @ ?B1 @ ?B2 @ rest) (length pre) State_zero
      = State_loop ((pre @ ?B1) @ ?B2 @ rest) (length (pre @ ?B1)) ?m1"
    by (rule State_block_Key) (use L'  in \<open>simp_all add: State_zero_def\<close>)
  also have "\<dots> = State_loop (((pre @ ?B1) @ ?B2) @ rest) (length ((pre @ ?B1) @ ?B2)) ?m2"
    by (rule State_block_Value) (use L'  in \<open>simp_all add: State_zero_def\<close>)
  finally have C: "State_loop (pre @ ?B1 @ ?B2 @ rest) (length pre) State_zero
      = State_loop (((pre @ ?B1) @ ?B2) @ rest) (length ((pre @ ?B1) @ ?B2)) ?m2" .
  have M: "?m2 = x" by (simp add: State_zero_def)
  have A: "((pre @ ?B1) @ ?B2) @ rest = pre @ State_MarshalToSizedBuffer x @ rest"
    by (simp add: State_MarshalToSizedBuffer_def)
  have N: "length ((pre @ ?B1) @ ?B2) = length pre + length (State_MarshalToSizedBuffer x)"
    by (simp add: State_MarshalToSizedBuffer_def)
  show ?thesis using C unfolding M A N E[symmetric] .
qed

text \<open>Decoding what \<open>State.MarshalToSizedBuffer\<close> wrote, into a fresh message.\<close>

lemma State_roundtrip:
  assumes "State_Size x < 2 ^ 63"
  shows "State_Unmarshal (State_MarshalToSizedBuffer x) State_zero = Inr x"
  using State_chain[of "[]" x "[]"] assms decoder_loop_end[OF State_decoder, where d="State_MarshalToSizedBuffer x" and m=x]
  by (simp add: State_Unmarshal_def)

subsection \<open>AccessTuple\<close>

lemma AccessTuple_decoder: "decoder AccessTuple_loop AccessTuple_step AccessTuple_field"
  unfolding decoder_def
  by (intro conjI allI) (subst AccessTuple_loop.simps, simp, simp add: AccessTuple_step_def)

lemma AccessTuple_block_Address:
  assumes "length (pre @ bytesBlock [0xa] v @ rest) < 2 ^ 63" and "AccessTuple.Address m = []"
  shows "AccessTuple_loop (pre @ bytesBlock [0xa] v @ rest) (length pre) m
    = AccessTuple_loop ((pre @ bytesBlock [0xa] v) @ rest) (length (pre @ bytesBlock [0xa] v)) (m\<lparr>AccessTuple.Address := v\<rparr>)"
  by (rule loop_bytesBlock[where upd="\<lambda>s. m\<lparr>AccessTuple.Address := s\<rparr>" and fn=1 and field="AccessTuple_field" and m=m, OF AccessTuple_decoder])
     (use assms in \<open>simp_all add: AccessTuple_field_def tag_literals\<close>)

lemma AccessTuple_block_StorageKeys:
  assumes "length (pre @ concat (map (lenDelim [0x12]) xs) @ rest) < 2 ^ 63"
  shows "AccessTuple_loop (pre @ concat (map (lenDelim [0x12]) xs) @ rest) (length pre) m
    = AccessTuple_loop ((pre @ concat (map (lenDelim [0x12]) xs)) @ rest) (length (pre @ concat (map (lenDelim [0x12]) xs)))
        (m\<lparr>StorageKeys := StorageKeys m @ xs\<rparr>)"
  using assms
proof (induction xs arbitrary: pre m)
  case Nil
  show ?case by simp
next
  case (Cons x xs)
  let ?b = "lenDelim [0x12] x"
  let ?bs = "concat (map (lenDelim [0x12]) xs)"
  let ?m = "m\<lparr>StorageKeys := StorageKeys m @ [x]\<rparr>"
  have L1: "length (pre @ ?b @ (?bs @ rest)) < 2 ^ 63" using Cons.prems by simp
  have s1: "AccessTuple_loop (pre @ ?b @ ?bs @ rest) (length pre) m
      = AccessTuple_loop ((pre @ ?b) @ ?bs @ rest) (length (pre @ ?b)) ?m"
    by (rule loop_lenDelim[where g="\<lambda>s. Inr (m\<lparr>StorageKeys := StorageKeys m @ [s]\<rparr>)"
          and fn=2 and field="AccessTuple_field" and m=m, OF AccessTuple_decoder])
       (use L1 in \<open>simp_all add: AccessTuple_field_def tag_literals store_def storeE_def
          split: sum.splits prod.splits\<close>)
  have L2: "length ((pre @ ?b) @ ?bs @ rest) < 2 ^ 63" using Cons.prems by simp
  from Cons.IH[OF L2, of ?m] s1 show ?case by simp
qed

lemma AccessTuple_chain:
  assumes L: "length (pre @ AccessTuple_MarshalToSizedBuffer x @ rest) < 2 ^ 63"
  shows "AccessTuple_loop (pre @ AccessTuple_MarshalToSizedBuffer x @ rest) (length pre) AccessTuple_zero
    = AccessTuple_loop (pre @ AccessTuple_MarshalToSizedBuffer x @ rest) (length pre + length (AccessTuple_MarshalToSizedBuffer x)) x"
proof -
  let ?B1 = "bytesBlock [0xa] (AccessTuple.Address x)"
  let ?B2 = "concat (map (lenDelim [0x12]) (StorageKeys x))"
  let ?m1 = "AccessTuple_zero\<lparr>AccessTuple.Address := AccessTuple.Address x\<rparr>"
  let ?m2 = "?m1\<lparr>StorageKeys := StorageKeys ?m1 @ StorageKeys x\<rparr>"
  have E: "pre @ AccessTuple_MarshalToSizedBuffer x @ rest = pre @ ?B1 @ ?B2 @ rest"
    by (simp add: AccessTuple_MarshalToSizedBuffer_def)
  note L' = L[unfolded E]
  have "AccessTuple_loop (pre @ ?B1 @ ?B2 @ rest) (length pre) AccessTuple_zero
      = AccessTuple_loop ((pre @ ?B1) @ ?B2 @ rest) (length (pre @ ?B1)) ?m1"
    by (rule AccessTuple_block_Address) (use L'  in \<open>simp_all add: AccessTuple_zero_def\<close>)
  also have "\<dots> = AccessTuple_loop (((pre @ ?B1) @ ?B2) @ rest) (length ((pre @ ?B1) @ ?B2)) ?m2"
    by (rule AccessTuple_block_StorageKeys) (use L'  in \<open>simp_all add: AccessTuple_zero_def\<close>)
  finally have C: "AccessTuple_loop (pre @ ?B1 @ ?B2 @ rest) (length pre) AccessTuple_zero
      = AccessTuple_loop (((pre @ ?B1) @ ?B2) @ rest) (length ((pre @ ?B1) @ ?B2)) ?m2" .
  have M: "?m2 = x" by (simp add: AccessTuple_zero_def)
  have A: "((pre @ ?B1) @ ?B2) @ rest = pre @ AccessTuple_MarshalToSizedBuffer x @ rest"
    by (simp add: AccessTuple_MarshalToSizedBuffer_def)
  have N: "length ((pre @ ?B1) @ ?B2) = length pre + length (AccessTuple_MarshalToSizedBuffer x)"
    by (simp add: AccessTuple_MarshalToSizedBuffer_def)
  show ?thesis using C unfolding M A N E[symmetric] .
qed

text \<open>Decoding what \<open>AccessTuple.MarshalToSizedBuffer\<close> wrote, into a fresh message.\<close>

lemma AccessTuple_roundtrip:
  assumes "AccessTuple_Size x < 2 ^ 63"
  shows "AccessTuple_Unmarshal (AccessTuple_MarshalToSizedBuffer x) AccessTuple_zero = Inr x"
  using AccessTuple_chain[of "[]" x "[]"] assms decoder_loop_end[OF AccessTuple_decoder, where d="AccessTuple_MarshalToSizedBuffer x" and m=x]
  by (simp add: AccessTuple_Unmarshal_def)

subsection \<open>Log\<close>

lemma Log_decoder: "decoder Log_loop Log_step Log_field"
  unfolding decoder_def
  by (intro conjI allI) (subst Log_loop.simps, simp, simp add: Log_step_def)

lemma Log_block_Address:
  assumes "length (pre @ bytesBlock [0xa] v @ rest) < 2 ^ 63" and "Log.Address m = []"
  shows "Log_loop (pre @ bytesBlock [0xa] v @ rest) (length pre) m
    = Log_loop ((pre @ bytesBlock [0xa] v) @ rest) (length (pre @ bytesBlock [0xa] v)) (m\<lparr>Log.Address := v\<rparr>)"
  by (rule loop_bytesBlock[where upd="\<lambda>s. m\<lparr>Log.Address := s\<rparr>" and fn=1 and field="Log_field" and m=m, OF Log_decoder])
     (use assms in \<open>simp_all add: Log_field_def tag_literals\<close>)

lemma Log_block_Topics:
  assumes "length (pre @ concat (map (lenDelim [0x12]) xs) @ rest) < 2 ^ 63"
  shows "Log_loop (pre @ concat (map (lenDelim [0x12]) xs) @ rest) (length pre) m
    = Log_loop ((pre @ concat (map (lenDelim [0x12]) xs)) @ rest) (length (pre @ concat (map (lenDelim [0x12]) xs)))
        (m\<lparr>Topics := Topics m @ xs\<rparr>)"
  using assms
proof (induction xs arbitrary: pre m)
  case Nil
  show ?case by simp
next
  case (Cons x xs)
  let ?b = "lenDelim [0x12] x"
  let ?bs = "concat (map (lenDelim [0x12]) xs)"
  let ?m = "m\<lparr>Topics := Topics m @ [x]\<rparr>"
  have L1: "length (pre @ ?b @ (?bs @ rest)) < 2 ^ 63" using Cons.prems by simp
  have s1: "Log_loop (pre @ ?b @ ?bs @ rest) (length pre) m
      = Log_loop ((pre @ ?b) @ ?bs @ rest) (length (pre @ ?b)) ?m"
    by (rule loop_lenDelim[where g="\<lambda>s. Inr (m\<lparr>Topics := Topics m @ [s]\<rparr>)"
          and fn=2 and field="Log_field" and m=m, OF Log_decoder])
       (use L1 in \<open>simp_all add: Log_field_def tag_literals store_def storeE_def
          split: sum.splits prod.splits\<close>)
  have L2: "length ((pre @ ?b) @ ?bs @ rest) < 2 ^ 63" using Cons.prems by simp
  from Cons.IH[OF L2, of ?m] s1 show ?case by simp
qed

lemma Log_block_Data:
  assumes "length (pre @ bytesBlock [0x1a] v @ rest) < 2 ^ 63" and "Data m = []"
  shows "Log_loop (pre @ bytesBlock [0x1a] v @ rest) (length pre) m
    = Log_loop ((pre @ bytesBlock [0x1a] v) @ rest) (length (pre @ bytesBlock [0x1a] v)) (m\<lparr>Data := v\<rparr>)"
  by (rule loop_bytesBlock[where upd="\<lambda>s. m\<lparr>Data := s\<rparr>" and fn=3 and field="Log_field" and m=m, OF Log_decoder])
     (use assms in \<open>simp_all add: Log_field_def tag_literals\<close>)

lemma Log_block_BlockNumber:
  assumes "BlockNumber m = 0"
  shows "Log_loop (pre @ varintBlock [0x20] v @ rest) (length pre) m
    = Log_loop ((pre @ varintBlock [0x20] v) @ rest) (length (pre @ varintBlock [0x20] v)) (m\<lparr>BlockNumber := v\<rparr>)"
  by (rule loop_varintBlock[where upd="\<lambda>v. m\<lparr>BlockNumber := v\<rparr>" and fn=4 and field="Log_field" and m=m, OF Log_decoder])
     (use assms in \<open>simp_all add: Log_field_def tag_literals\<close>)

lemma Log_block_TxHash:
  assumes "length (pre @ bytesBlock [0x2a] v @ rest) < 2 ^ 63" and "TxHash m = []"
  shows "Log_loop (pre @ bytesBlock [0x2a] v @ rest) (length pre) m
    = Log_loop ((pre @ bytesBlock [0x2a] v) @ rest) (length (pre @ bytesBlock [0x2a] v)) (m\<lparr>TxHash := v\<rparr>)"
  by (rule loop_bytesBlock[where upd="\<lambda>s. m\<lparr>TxHash := s\<rparr>" and fn=5 and field="Log_field" and m=m, OF Log_decoder])
     (use assms in \<open>simp_all add: Log_field_def tag_literals\<close>)

lemma Log_block_TxIndex:
  assumes "TxIndex m = 0"
  shows "Log_loop (pre @ varintBlock [0x30] v @ rest) (length pre) m
    = Log_loop ((pre @ varintBlock [0x30] v) @ rest) (length (pre @ varintBlock [0x30] v)) (m\<lparr>TxIndex := v\<rparr>)"
  by (rule loop_varintBlock[where upd="\<lambda>v. m\<lparr>TxIndex := v\<rparr>" and fn=6 and field="Log_field" and m=m, OF Log_decoder])
     (use assms in \<open>simp_all add: Log_field_def tag_literals\<close>)

lemma Log_block_BlockHash:
  assumes "length (pre @ bytesBlock [0x3a] v @ rest) < 2 ^ 63" and "BlockHash m = []"
  shows "Log_loop (pre @ bytesBlock [0x3a] v @ rest) (length pre) m
    = Log_loop ((pre @ bytesBlock [0x3a] v) @ rest) (length (pre @ bytesBlock [0x3a] v)) (m\<lparr>BlockHash := v\<rparr>)"
  by (rule loop_bytesBlock[where upd="\<lambda>s. m\<lparr>BlockHash := s\<rparr>" and fn=7 and field="Log_field" and m=m, OF Log_decoder])
     (use assms in \<open>simp_all add: Log_field_def tag_literals\<close>)

lemma Log_block_Index:
  assumes "Index m = 0"
  shows "Log_loop (pre @ varintBlock [0x40] v @ rest) (length pre) m
    = Log_loop ((pre @ varintBlock [0x40] v) @ rest) (length (pre @ varintBlock [0x40] v)) (m\<lparr>Index := v\<rparr>)"
  by (rule loop_varintBlock[where upd="\<lambda>v. m\<lparr>Index := v\<rparr>" and fn=8 and field="Log_field" and m=m, OF Log_decoder])
     (use assms in \<open>simp_all add: Log_field_def tag_literals\<close>)

lemma Log_block_Removed:
  assumes "Removed m = False"
  shows "Log_loop (pre @ boolBlock [0x48] v @ rest) (length pre) m
    = Log_loop ((pre @ boolBlock [0x48] v) @ rest) (length (pre @ boolBlock [0x48] v)) (m\<lparr>Removed := v\<rparr>)"
  by (rule loop_boolBlock[where upd="\<lambda>b. m\<lparr>Removed := b\<rparr>" and fn=9 and field="Log_field" and m=m, OF Log_decoder])
     (use assms in \<open>simp_all add: Log_field_def tag_literals\<close>)

lemma Log_chain:
  assumes L: "length (pre @ Log_MarshalToSizedBuffer x @ rest) < 2 ^ 63"
  shows "Log_loop (pre @ Log_MarshalToSizedBuffer x @ rest) (length pre) Log_zero
    = Log_loop (pre @ Log_MarshalToSizedBuffer x @ rest) (length pre + length (Log_MarshalToSizedBuffer x)) x"
proof -
  let ?B1 = "bytesBlock [0xa] (Log.Address x)"
  let ?B2 = "concat (map (lenDelim [0x12]) (Topics x))"
  let ?B3 = "bytesBlock [0x1a] (Data x)"
  let ?B4 = "varintBlock [0x20] (BlockNumber x)"
  let ?B5 = "bytesBlock [0x2a] (TxHash x)"
  let ?B6 = "varintBlock [0x30] (TxIndex x)"
  let ?B7 = "bytesBlock [0x3a] (BlockHash x)"
  let ?B8 = "varintBlock [0x40] (Index x)"
  let ?B9 = "boolBlock [0x48] (Removed x)"
  let ?m1 = "Log_zero\<lparr>Log.Address := Log.Address x\<rparr>"
  let ?m2 = "?m1\<lparr>Topics := Topics ?m1 @ Topics x\<rparr>"
  let ?m3 = "?m2\<lparr>Data := Data x\<rparr>"
  let ?m4 = "?m3\<lparr>BlockNumber := BlockNumber x\<rparr>"
  let ?m5 = "?m4\<lparr>TxHash := TxHash x\<rparr>"
  let ?m6 = "?m5\<lparr>TxIndex := TxIndex x\<rparr>"
  let ?m7 = "?m6\<lparr>BlockHash := BlockHash x\<rparr>"
  let ?m8 = "?m7\<lparr>Index := Index x\<rparr>"
  let ?m9 = "?m8\<lparr>Removed := Removed x\<rparr>"
  have E: "pre @ Log_MarshalToSizedBuffer x @ rest = pre @ ?B1 @ ?B2 @ ?B3 @ ?B4 @ ?B5 @ ?B6 @ ?B7 @ ?B8 @ ?B9 @ rest"
    by (simp add: Log_MarshalToSizedBuffer_def)
  note L' = L[unfolded E]
  have "Log_loop (pre @ ?B1 @ ?B2 @ ?B3 @ ?B4 @ ?B5 @ ?B6 @ ?B7 @ ?B8 @ ?B9 @ rest) (length pre) Log_zero
      = Log_loop ((pre @ ?B1) @ ?B2 @ ?B3 @ ?B4 @ ?B5 @ ?B6 @ ?B7 @ ?B8 @ ?B9 @ rest) (length (pre @ ?B1)) ?m1"
    by (rule Log_block_Address) (use L'  in \<open>simp_all add: Log_zero_def\<close>)
  also have "\<dots> = Log_loop (((pre @ ?B1) @ ?B2) @ ?B3 @ ?B4 @ ?B5 @ ?B6 @ ?B7 @ ?B8 @ ?B9 @ rest) (length ((pre @ ?B1) @ ?B2)) ?m2"
    by (rule Log_block_Topics) (use L'  in \<open>simp_all add: Log_zero_def\<close>)
  also have "\<dots> = Log_loop ((((pre @ ?B1) @ ?B2) @ ?B3) @ ?B4 @ ?B5 @ ?B6 @ ?B7 @ ?B8 @ ?B9 @ rest) (length (((pre @ ?B1) @ ?B2) @ ?B3)) ?m3"
    by (rule Log_block_Data) (use L'  in \<open>simp_all add: Log_zero_def\<close>)
  also have "\<dots> = Log_loop (((((pre @ ?B1) @ ?B2) @ ?B3) @ ?B4) @ ?B5 @ ?B6 @ ?B7 @ ?B8 @ ?B9 @ rest) (length ((((pre @ ?B1) @ ?B2) @ ?B3) @ ?B4)) ?m4"
    by (rule Log_block_BlockNumber) (use L'  in \<open>simp_all add: Log_zero_def\<close>)
  also have "\<dots> = Log_loop ((((((pre @ ?B1) @ ?B2) @ ?B3) @ ?B4) @ ?B5) @ ?B6 @ ?B7 @ ?B8 @ ?B9 @ rest) (length (((((pre @ ?B1) @ ?B2) @ ?B3) @ ?B4) @ ?B5)) ?m5"
    by (rule Log_block_TxHash) (use L'  in \<open>simp_all add: Log_zero_def\<close>)
  also have "\<dots> = Log_loop (((((((pre @ ?B1) @ ?B2) @ ?B3) @ ?B4) @ ?B5) @ ?B6) @ ?B7 @ ?B8 @ ?B9 @ rest) (length ((((((pre @ ?B1) @ ?B2) @ ?B3) @ ?B4) @ ?B5) @ ?B6)) ?m6"
    by (rule Log_block_TxIndex) (use L'  in \<open>simp_all add: Log_zero_def\<close>)
  also have "\<dots> = Log_loop ((((((((pre @ ?B1) @ ?B2) @ ?B3) @ ?B4) @ ?B5) @ ?B6) @ ?B7) @ ?B8 @ ?B9 @ rest) (length (((((((pre @ ?B1) @ ?B2) @ ?B3) @ ?B4) @ ?B5) @ ?B6) @ ?B7)) ?m7"
    by (rule Log_block_BlockHash) (use L'  in \<open>simp_all add: Log_zero_def\<close>)
  also have "\<dots> = Log_loop (((((((((pre @ ?B1) @ ?B2) @ ?B3) @ ?B4) @ ?B5) @ ?B6) @ ?B7) @ ?B8) @ ?B9 @ rest) (length ((((((((pre @ ?B1) @ ?B2) @ ?B3) @ ?B4) @ ?B5) @ ?B6) @ ?B7) @ ?B8)) ?m8"
    by (rule Log_block_Index) (use L'  in \<open>simp_all add: Log_zero_def\<close>)
  also have "\<dots> = Log_loop ((((((((((pre @ ?B1) @ ?B2) @ ?B3) @ ?B4) @ ?B5) @ ?B6) @ ?B7) @ ?B8) @ ?B9) @ rest) (length (((((((((pre @ ?B1) @ ?B2) @ ?B3) @ ?B4) @ ?B5) @ ?B6) @ ?B7) @ ?B8) @ ?B9)) ?m9"
    by (rule Log_block_Removed) (use L'  in \<open>simp_all add: Log_zero_def\<close>)
  finally have C: "Log_loop (pre @ ?B1 @ ?B2 @ ?B3 @ ?B4 @ ?B5 @ ?B6 @ ?B7 @ ?B8 @ ?B9 @ rest) (length pre) Log_zero
      = Log_loop ((((((((((pre @ ?B1) @ ?B2) @ ?B3) @ ?B4) @ ?B5) @ ?B6) @ ?B7) @ ?B8) @ ?B9) @ rest) (length (((((((((pre @ ?B1) @ ?B2) @ ?B3) @ ?B4) @ ?B5) @ ?B6) @ ?B7) @ ?B8) @ ?B9)) ?m9" .
  have M: "?m9 = x" by (simp add: Log_zero_def)
  have A: "(((((((((pre @ ?B1) @ ?B2) @ ?B3) @ ?B4) @ ?B5) @ ?B6) @ ?B7) @ ?B8) @ ?B9) @ rest = pre @ Log_MarshalToSizedBuffer x @ rest"
    by (simp add: Log_MarshalToSizedBuffer_def)
  have N: "length (((((((((pre @ ?B1) @ ?B2) @ ?B3) @ ?B4) @ ?B5) @ ?B6) @ ?B7) @ ?B8) @ ?B9) = length pre + length (Log_MarshalToSizedBuffer x)"
    by (simp add: Log_MarshalToSizedBuffer_def)
  show ?thesis using C unfolding M A N E[symmetric] .
qed

text \<open>Decoding what \<open>Log.MarshalToSizedBuffer\<close> wrote, into a fresh message.\<close>

lemma Log_roundtrip:
  assumes "Log_Size x < 2 ^ 63"
  shows "Log_Unmarshal (Log_MarshalToSizedBuffer x) Log_zero = Inr x"
  using Log_chain[of "[]" x "[]"] assms decoder_loop_end[OF Log_decoder, where d="Log_MarshalToSizedBuffer x" and m=x]
  by (simp add: Log_Unmarshal_def)

subsection \<open>TransactionLogs\<close>

lemma TransactionLogs_decoder: "decoder TransactionLogs_loop TransactionLogs_step TransactionLogs_field"
  unfolding decoder_def
  by (intro conjI allI) (subst TransactionLogs_loop.simps, simp, simp add: TransactionLogs_step_def)

lemma TransactionLogs_block_Hash:
  assumes "length (pre @ bytesBlock [0xa] v @ rest) < 2 ^ 63" and "Hash m = []"
  shows "TransactionLogs_loop (pre @ bytesBlock [0xa] v @ rest) (length pre) m
    = TransactionLogs_loop ((pre @ bytesBlock [0xa] v) @ rest) (length (pre @ bytesBlock [0xa] v)) (m\<lparr>Hash := v\<rparr>)"
  by (rule loop_bytesBlock[where upd="\<lambda>s. m\<lparr>Hash := s\<rparr>" and fn=1 and field="TransactionLogs_field" and m=m, OF TransactionLogs_decoder])
     (use assms in \<open>simp_all add: TransactionLogs_field_def tag_literals\<close>)

lemma TransactionLogs_block_Logs:
  assumes "length (pre @ concat (map (\<lambda>e. lenDelim [0x12] (Log_MarshalToSizedBuffer e)) xs) @ rest) < 2 ^ 63"
  shows "TransactionLogs_loop (pre @ concat (map (\<lambda>e. lenDelim [0x12] (Log_MarshalToSizedBuffer e)) xs) @ rest) (length pre) m
    = TransactionLogs_loop ((pre @ concat (map (\<lambda>e. lenDelim [0x12] (Log_MarshalToSizedBuffer e)) xs)) @ rest) (length (pre @ concat (map (\<lambda>e. lenDelim [0x12] (Log_MarshalToSizedBuffer e)) xs)))
        (m\<lparr>Logs := Logs m @ xs\<rparr>)"
  using assms
proof (induction xs arbitrary: pre m)
  case Nil
  show ?case by simp
next
  case (Cons x xs)
  let ?b = "lenDelim [0x12] (Log_MarshalToSizedBuffer x)"
  let ?bs = "concat (map (\<lambda>e. lenDelim [0x12] (Log_MarshalToSizedBuffer e)) xs)"
  let ?m = "m\<lparr>Logs := Logs m @ [x]\<rparr>"
  have L1: "length (pre @ ?b @ (?bs @ rest)) < 2 ^ 63" using Cons.prems by simp
  have sz: "Log_Size x < 2 ^ 63" using Cons.prems by (simp add: sizeLenDelim_def)
  note rt = Log_roundtrip[OF sz]
  have s1: "TransactionLogs_loop (pre @ ?b @ ?bs @ rest) (length pre) m
      = TransactionLogs_loop ((pre @ ?b) @ ?bs @ rest) (length (pre @ ?b)) ?m"
    by (rule loop_lenDelim[where g="\<lambda>bs. case Log_Unmarshal bs Log_zero of Inl e \<Rightarrow> Inl e | Inr e \<Rightarrow> Inr (m\<lparr>Logs := Logs m @ [e]\<rparr>)"
          and fn=2 and field="TransactionLogs_field" and m=m, OF TransactionLogs_decoder])
       (use L1 rt in \<open>simp_all add: TransactionLogs_field_def tag_literals store_def storeE_def
          split: sum.splits prod.splits\<close>)
  have L2: "length ((pre @ ?b) @ ?bs @ rest) < 2 ^ 63" using Cons.prems by simp
  from Cons.IH[OF L2, of ?m] s1 show ?case by simp
qed

lemma TransactionLogs_chain:
  assumes L: "length (pre @ TransactionLogs_MarshalToSizedBuffer x @ rest) < 2 ^ 63"
  shows "TransactionLogs_loop (pre @ TransactionLogs_MarshalToSizedBuffer x @ rest) (length pre) TransactionLogs_zero
    = TransactionLogs_loop (pre @ TransactionLogs_MarshalToSizedBuffer x @ rest) (length pre + length (TransactionLogs_MarshalToSizedBuffer x)) x"
proof -
  let ?B1 = "bytesBlock [0xa] (Hash x)"
  let ?B2 = "concat (map (\<lambda>e. lenDelim [0x12] (Log_MarshalToSizedBuffer e)) (Logs x))"
  let ?m1 = "TransactionLogs_zero\<lparr>Hash := Hash x\<rparr>"
  let ?m2 = "?m1\<lparr>Logs := Logs ?m1 @ Logs x\<rparr>"
  have E: "pre @ TransactionLogs_MarshalToSizedBuffer x @ rest = pre @ ?B1 @ ?B2 @ rest"
    by (simp add: TransactionLogs_MarshalToSizedBuffer_def)
  note L' = L[unfolded E]
  have "TransactionLogs_loop (pre @ ?B1 @ ?B2 @ rest) (length pre) TransactionLogs_zero
      = TransactionLogs_loop ((pre @ ?B1) @ ?B2 @ rest) (length (pre @ ?B1)) ?m1"
    by (rule TransactionLogs_block_Hash) (use L'  in \<open>simp_all add: TransactionLogs_zero_def\<close>)
  also have "\<dots> = TransactionLogs_loop (((pre @ ?B1) @ ?B2) @ rest) (length ((pre @ ?B1) @ ?B2)) ?m2"
    by (rule TransactionLogs_block_Logs) (use L'  in \<open>simp_all add: TransactionLogs_zero_def\<close>)
  finally have C: "TransactionLogs_loop (pre @ ?B1 @ ?B2 @ rest) (length pre) TransactionLogs_zero
      = TransactionLogs_loop (((pre @ ?B1) @ ?B2) @ rest) (length ((pre @ ?B1) @ ?B2)) ?m2" .
  have M: "?m2 = x" by (simp add: TransactionLogs_zero_def)
  have A: "((pre @ ?B1) @ ?B2) @ rest = pre @ TransactionLogs_MarshalToSizedBuffer x @ rest"
    by (simp add: TransactionLogs_MarshalToSizedBuffer_def)
  have N: "length ((pre @ ?B1) @ ?B2) = length pre + length (TransactionLogs_MarshalToSizedBuffer x)"
    by (simp add: TransactionLogs_MarshalToSizedBuffer_def)
  show ?thesis using C unfolding M A N E[symmetric] .
qed

text \<open>Decoding what \<open>TransactionLogs.MarshalToSizedBuffer\<close> wrote, into a fresh message.\<close>

lemma TransactionLogs_roundtrip:
  assumes "TransactionLogs_Size x < 2 ^ 63"
  shows "TransactionLogs_Unmarshal (TransactionLogs_MarshalToSizedBuffer x) TransactionLogs_zero = Inr x"
  using TransactionLogs_chain[of "[]" x "[]"] assms decoder_loop_end[OF TransactionLogs_decoder, where d="TransactionLogs_MarshalToSizedBuffer x" and m=x]
  by (simp add: TransactionLogs_Unmarshal_def)

subsection \<open>TxResult\<close>

lemma TxResult_decoder: "decoder TxResult_loop TxResult_step TxResult_field"
  unfolding decoder_def
  by (intro conjI allI) (subst TxResult_loop.simps, simp, simp add: TxResult_step_def)

lemma TxResult_block_ContractAddress:
  assumes "length (pre @ bytesBlock [0xa] v @ rest) < 2 ^ 63" and "ContractAddress m = []"
  shows "TxResult_loop (pre @ bytesBlock [0xa] v @ rest) (length pre) m
    = TxResult_loop ((pre @ bytesBlock [0xa] v) @ rest) (length (pre @ bytesBlock [0xa] v)) (m\<lparr>ContractAddress := v\<rparr>)"
  by (rule loop_bytesBlock[where upd="\<lambda>s. m\<lparr>ContractAddress := s\<rparr>" and fn=1 and field="TxResult_field" and m=m, OF TxResult_decoder])
     (use assms in \<open>simp_all add: TxResult_field_def tag_literals\<close>)

lemma TxResult_block_Bloom:
  assumes "length (pre @ bytesBlock [0x12] v @ rest) < 2 ^ 63" and "Bloom m = []"
  shows "TxResult_loop (pre @ bytesBlock [0x12] v @ rest) (length pre) m
    = TxResult_loop ((pre @ bytesBlock [0x12] v) @ rest) (length (pre @ bytesBlock [0x12] v)) (m\<lparr>Bloom := v\<rparr>)"
  by (rule loop_bytesBlock[where upd="\<lambda>s. m\<lparr>Bloom := s\<rparr>" and fn=2 and field="TxResult_field" and m=m, OF TxResult_decoder])
     (use assms in \<open>simp_all add: TxResult_field_def tag_literals\<close>)

lemma TxResult_block_TxLogs:
  assumes "length (pre @ lenDelim [0x1a] (TransactionLogs_MarshalToSizedBuffer v) @ rest) < 2 ^ 63" and "TxLogs m = TransactionLogs_zero"
  shows "TxResult_loop (pre @ lenDelim [0x1a] (TransactionLogs_MarshalToSizedBuffer v) @ rest) (length pre) m
    = TxResult_loop ((pre @ lenDelim [0x1a] (TransactionLogs_MarshalToSizedBuffer v)) @ rest) (length (pre @ lenDelim [0x1a] (TransactionLogs_MarshalToSizedBuffer v))) (m\<lparr>TxLogs := v\<rparr>)"
proof -
  have sz: "TransactionLogs_Size v < 2 ^ 63" using assms(1) by (simp add: sizeLenDelim_def)
  note rt = TransactionLogs_roundtrip[OF sz]
  show ?thesis
    by (rule loop_lenDelim[where g="\<lambda>bs. case TransactionLogs_Unmarshal bs (TxLogs m) of Inl e \<Rightarrow> Inl e | Inr c \<Rightarrow> Inr (m\<lparr>TxLogs := c\<rparr>)"
          and fn=3 and field="TxResult_field" and m=m, OF TxResult_decoder])
       (use assms rt in \<open>simp_all add: TxResult_field_def tag_literals\<close>)
qed

lemma TxResult_block_Ret:
  assumes "length (pre @ bytesBlock [0x22] v @ rest) < 2 ^ 63" and "Ret m = []"
  shows "TxResult_loop (pre @ bytesBlock [0x22] v @ rest) (length pre) m
    = TxResult_loop ((pre @ bytesBlock [0x22] v) @ rest) (length (pre @ bytesBlock [0x22] v)) (m\<lparr>Ret := v\<rparr>)"
  by (rule loop_bytesBlock[where upd="\<lambda>s. m\<lparr>Ret := s\<rparr>" and fn=4 and field="TxResult_field" and m=m, OF TxResult_decoder])
     (use assms in \<open>simp_all add: TxResult_field_def tag_literals\<close>)

lemma TxResult_block_Reverted:
  assumes "Reverted m = False"
  shows "TxResult_loop (pre @ boolBlock [0x28] v @ rest) (length pre) m
    = TxResult_loop ((pre @ boolBlock [0x28] v) @ rest) (length (pre @ boolBlock [0x28] v)) (m\<lparr>Reverted := v\<rparr>)"
  by (rule loop_boolBlock[where upd="\<lambda>b. m\<lparr>Reverted := b\<rparr>" and fn=5 and field="TxResult_field" and m=m, OF TxResult_decoder])
     (use assms in \<open>simp_all add: TxResult_field_def tag_literals\<close>)

lemma TxResult_block_GasUsed:
  assumes "GasUsed m = 0"
  shows "TxResult_loop (pre @ varintBlock [0x30] v @ rest) (length pre) m
    = TxResult_loop ((pre @ varintBlock [0x30] v) @ rest) (length (pre @ varintBlock [0x30] v)) (m\<lparr>GasUsed := v\<rparr>)"
  by (rule loop_varintBlock[where upd="\<lambda>v. m\<lparr>GasUsed := v\<rparr>" and fn=6 and field="TxResult_field" and m=m, OF TxResult_decoder])
     (use assms in \<open>simp_all add: TxResult_field_def tag_literals\<close>)

lemma TxResult_chain:
  assumes L: "length (pre @ TxResult_MarshalToSizedBuffer x @ rest) < 2 ^ 63"
  shows "TxResult_loop (pre @ TxResult_MarshalToSizedBuffer x @ rest) (length pre) TxResult_zero
    = TxResult_loop (pre @ TxResult_MarshalToSizedBuffer x @ rest) (length pre + length (TxResult_MarshalToSizedBuffer x)) x"
proof -
  let ?B1 = "bytesBlock [0xa] (ContractAddress x)"
  let ?B2 = "bytesBlock [0x12] (Bloom x)"
  let ?B3 = "lenDelim [0x1a] (TransactionLogs_MarshalToSizedBuffer (TxLogs x))"
  let ?B4 = "bytesBlock [0x22] (Ret x)"
  let ?B5 = "boolBlock [0x28] (Reverted x)"
  let ?B6 = "varintBlock [0x30] (GasUsed x)"
  let ?m1 = "TxResult_zero\<lparr>ContractAddress := ContractAddress x\<rparr>"
  let ?m2 = "?m1\<lparr>Bloom := Bloom x\<rparr>"
  let ?m3 = "?m2\<lparr>TxLogs := TxLogs x\<rparr>"
  let ?m4 = "?m3\<lparr>Ret := Ret x\<rparr>"
  let ?m5 = "?m4\<lparr>Reverted := Reverted x\<rparr>"
  let ?m6 = "?m5\<lparr>GasUsed := GasUsed x\<rparr>"
  have E: "pre @ TxResult_MarshalToSizedBuffer x @ rest = pre @ ?B1 @ ?B2 @ ?B3 @ ?B4 @ ?B5 @ ?B6 @ rest"
    by (simp add: TxResult_MarshalToSizedBuffer_def)
  note L' = L[unfolded E]
  have "TxResult_loop (pre @ ?B1 @ ?B2 @ ?B3 @ ?B4 @ ?B5 @ ?B6 @ rest) (length pre) TxResult_zero
      = TxResult_loop ((pre @ ?B1) @ ?B2 @ ?B3 @ ?B4 @ ?B5 @ ?B6 @ rest) (length (pre @ ?B1)) ?m1"
    by (rule TxResult_block_ContractAddress) (use L'  in \<open>simp_all add: TxResult_zero_def\<close>)
  also have "\<dots> = TxResult_loop (((pre @ ?B1) @ ?B2) @ ?B3 @ ?B4 @ ?B5 @ ?B6 @ rest) (length ((pre @ ?B1) @ ?B2)) ?m2"
    by (rule TxResult_block_Bloom) (use L'  in \<open>simp_all add: TxResult_zero_def\<close>)
  also have "\<dots> = TxResult_loop ((((pre @ ?B1) @ ?B2) @ ?B3) @ ?B4 @ ?B5 @ ?B6 @ rest) (length (((pre @ ?B1) @ ?B2) @ ?B3)) ?m3"
    by (rule TxResult_block_TxLogs) (use L'  in \<open>simp_all add: TxResult_zero_def\<close>)
  also have "\<dots> = TxResult_loop (((((pre @ ?B1) @ ?B2) @ ?B3) @ ?B4) @ ?B5 @ ?B6 @ rest) (length ((((pre @ ?B1) @ ?B2) @ ?B3) @ ?B4)) ?m4"
    by (rule TxResult_block_Ret) (use L'  in \<open>simp_all add: TxResult_zero_def\<close>)
  also have "\<dots> = TxResult_loop ((((((pre @ ?B1) @ ?B2) @ ?B3) @ ?B4) @ ?B5) @ ?B6 @ rest) (length (((((pre @ ?B1) @ ?B2) @ ?B3) @ ?B4) @ ?B5)) ?m5"
    by (rule TxResult_block_Reverted) (use L'  in \<open>simp_all add: TxResult_zero_def\<close>)
  also have "\<dots> = TxResult_loop (((((((pre @ ?B1) @ ?B2) @ ?B3) @ ?B4) @ ?B5) @ ?B6) @ rest) (length ((((((pre @ ?B1) @ ?B2) @ ?B3) @ ?B4) @ ?B5) @ ?B6)) ?m6"
    by (rule TxResult_block_GasUsed) (use L'  in \<open>simp_all add: TxResult_zero_def\<close>)
  finally have C: "TxResult_loop (pre @ ?B1 @ ?B2 @ ?B3 @ ?B4 @ ?B5 @ ?B6 @ rest) (length pre) TxResult_zero
      = TxResult_loop (((((((pre @ ?B1) @ ?B2) @ ?B3) @ ?B4) @ ?B5) @ ?B6) @ rest) (length ((((((pre @ ?B1) @ ?B2) @ ?B3) @ ?B4) @ ?B5) @ ?B6)) ?m6" .
  have M: "?m6 = x" by (simp add: TxResult_zero_def)
  have A: "((((((pre @ ?B1) @ ?B2) @ ?B3) @ ?B4) @ ?B5) @ ?B6) @ rest = pre @ TxResult_MarshalToSizedBuffer x @ rest"
    by (simp add: TxResult_MarshalToSizedBuffer_def)
  have N: "length ((((((pre @ ?B1) @ ?B2) @ ?B3) @ ?B4) @ ?B5) @ ?B6) = length pre + length (TxResult_MarshalToSizedBuffer x)"
    by (simp add: TxResult_MarshalToSizedBuffer_def)
  show ?thesis using C unfolding M A N E[symmetric] .
qed

text \<open>Decoding what \<open>TxResult.MarshalToSizedBuffer\<close> wrote, into a fresh message.\<close>

lemma TxResult_roundtrip:
  assumes "TxResult_Size x < 2 ^ 63"
  shows "TxResult_Unmarshal (TxResult_MarshalToSizedBuffer x) TxResult_zero = Inr x"
  using TxResult_chain[of "[]" x "[]"] assms decoder_loop_end[OF TxResult_decoder, where d="TxResult_MarshalToSizedBuffer x" and m=x]
  by (simp add: TxResult_Unmarshal_def)

subsection \<open>ChainConfig\<close>

lemma ChainConfig_decoder: "decoder (ChainConfig_loop ic) (ChainConfig_step ic) (ChainConfig_field ic)"
  unfolding decoder_def
  by (intro conjI allI) (subst ChainConfig_loop.simps, simp, simp add: ChainConfig_step_def)

lemma ChainConfig_block_HomesteadBlock:
  assumes "length (pre @ optIntBlock ic [0xa] v @ rest) < 2 ^ 63" and "HomesteadBlock m = None" and "Int_ok ic v"
  shows "ChainConfig_loop ic (pre @ optIntBlock ic [0xa] v @ rest) (length pre) m
    = ChainConfig_loop ic ((pre @ optIntBlock ic [0xa] v) @ rest) (length (pre @ optIntBlock ic [0xa] v)) (m\<lparr>HomesteadBlock := v\<rparr>)"
  by (rule loop_optIntBlock[where upd="\<lambda>v. m\<lparr>HomesteadBlock := v\<rparr>" and fn=1 and field="(ChainConfig_field ic)" and m=m and ic=ic, OF ChainConfig_decoder])
     (use assms in \<open>simp_all add: ChainConfig_field_def tag_literals Int_ok_def\<close>)

lemma ChainConfig_block_DAOForkBlock:
  assumes "length (pre @ optIntBlock ic [0x12] v @ rest) < 2 ^ 63" and "DAOForkBlock m = None" and "Int_ok ic v"
  shows "ChainConfig_loop ic (pre @ optIntBlock ic [0x12] v @ rest) (length pre) m
    = ChainConfig_loop ic ((pre @ optIntBlock ic [0x12] v) @ rest) (length (pre @ optIntBlock ic [0x12] v)) (m\<lparr>DAOForkBlock := v\<rparr>)"
  by (rule loop_optIntBlock[where upd="\<lambda>v. m\<lparr>DAOForkBlock := v\<rparr>" and fn=2 and field="(ChainConfig_field ic)" and m=m and ic=ic, OF ChainConfig_decoder])
     (use assms in \<open>simp_all add: ChainConfig_field_def tag_literals Int_ok_def\<close>)

lemma ChainConfig_block_DAOForkSupport:
  assumes "DAOForkSupport m = False"
  shows "ChainConfig_loop ic (pre @ boolBlock [0x18] v @ rest) (length pre) m
    = ChainConfig_loop ic ((pre @ boolBlock [0x18] v) @ rest) (length (pre @ boolBlock [0x18] v)) (m\<lparr>DAOForkSupport := v\<rparr>)"
  by (rule loop_boolBlock[where upd="\<lambda>b. m\<lparr>DAOForkSupport := b\<rparr>" and fn=3 and field="(ChainConfig_field ic)" and m=m, OF ChainConfig_decoder])
     (use assms in \<open>simp_all add: ChainConfig_field_def tag_literals\<close>)

lemma ChainConfig_block_EIP150Block:
  assumes "length (pre @ optIntBlock ic [0x22] v @ rest) < 2 ^ 63" and "EIP150Block m = None" and "Int_ok ic v"
  shows "ChainConfig_loop ic (pre @ optIntBlock ic [0x22] v @ rest) (length pre) m
    = ChainConfig_loop ic ((pre @ optIntBlock ic [0x22] v) @ rest) (length (pre @ optIntBlock ic [0x22] v)) (m\<lparr>EIP150Block := v\<rparr>)"
  by (rule loop_optIntBlock[where upd="\<lambda>v. m\<lparr>EIP150Block := v\<rparr>" and fn=4 and field="(ChainConfig_field ic)" and m=m and ic=ic, OF ChainConfig_decoder])
     (use assms in \<open>simp_all add: ChainConfig_field_def tag_literals Int_ok_def\<close>)

lemma ChainConfig_block_EIP150Hash:
  assumes "length (pre @ bytesBlock [0x2a] v @ rest) < 2 ^ 63" and "EIP150Hash m = []"
  shows "ChainConfig_loop ic (pre @ bytesBlock [0x2a] v @ rest) (length pre) m
    = ChainConfig_loop ic ((pre @ bytesBlock [0x2a] v) @ rest) (length (pre @ bytesBlock [0x2a] v)) (m\<lparr>EIP150Hash := v\<rparr>)"
  by (rule loop_bytesBlock[where upd="\<lambda>s. m\<lparr>EIP150Hash := s\<rparr>" and fn=5 and field="(ChainConfig_field ic)" and m=m, OF ChainConfig_decoder])
     (use assms in \<open>simp_all add: ChainConfig_field_def tag_literals\<close>)

lemma ChainConfig_block_EIP155Block:
  assumes "length (pre @ optIntBlock ic [0x32] v @ rest) < 2 ^ 63" and "EIP155Block m = None" and "Int_ok ic v"
  shows "ChainConfig_loop ic (pre @ optIntBlock ic [0x32] v @ rest) (length pre) m
    = ChainConfig_loop ic ((pre @ optIntBlock ic [0x32] v) @ rest) (length (pre @ optIntBlock ic [0x32] v)) (m\<lparr>EIP155Block := v\<rparr>)"
  by (rule loop_optIntBlock[where upd="\<lambda>v. m\<lparr>EIP155Block := v\<rparr>" and fn=6 and field="(ChainConfig_field ic)" and m=m and ic=ic, OF ChainConfig_decoder])
     (use assms in \<open>simp_all add: ChainConfig_field_def tag_literals Int_ok_def\<close>)

lemma ChainConfig_block_EIP158Block:
  assumes "length (pre @ optIntBlock ic [0x3a] v @ rest) < 2 ^ 63" and "EIP158Block m = None" and "Int_ok ic v"
  shows "ChainConfig_loop ic (pre @ optIntBlock ic [0x3a] v @ rest) (length pre) m
    = ChainConfig_loop ic ((pre @ optIntBlock ic [0x3a] v) @ rest) (length (pre @ optIntBlock ic [0x3a] v)) (m\<lparr>EIP158Block := v\<rparr>)"
  by (rule loop_optIntBlock[where upd="\<lambda>v. m\<lparr>EIP158Block := v\<rparr>" and fn=7 and field="(ChainConfig_field ic)" and m=m and ic=ic, OF ChainConfig_decoder])
     (use assms in \<open>simp_all add: ChainConfig_field_def tag_literals Int_ok_def\<close>)

lemma ChainConfig_block_ByzantiumBlock:
  assumes "length (pre @ optIntBlock ic [0x42] v @ rest) < 2 ^ 63" and "ByzantiumBlock m = None" and "Int_ok ic v"
  shows "ChainConfig_loop ic (pre @ optIntBlock ic [0x42] v @ rest) (length pre) m
    = ChainConfig_loop ic ((pre @ optIntBlock ic [0x42] v) @ rest) (length (pre @ optIntBlock ic [0x42] v)) (m\<lparr>ByzantiumBlock := v\<rparr>)"
  by (rule loop_optIntBlock[where upd="\<lambda>v. m\<lparr>ByzantiumBlock := v\<rparr>" and fn=8 and field="(ChainConfig_field ic)" and m=m and ic=ic, OF ChainConfig_decoder])
     (use assms in \<open>simp_all add: ChainConfig_field_def tag_literals Int_ok_def\<close>)

lemma ChainConfig_block_ConstantinopleBlock:
  assumes "length (pre @ optIntBlock ic [0x4a] v @ rest) < 2 ^ 63" and "ConstantinopleBlock m = None" and "Int_ok ic v"
  shows "ChainConfig_loop ic (pre @ optIntBlock ic [0x4a] v @ rest) (length pre) m
    = ChainConfig_loop ic ((pre @ optIntBlock ic [0x4a] v) @ rest) (length (pre @ optIntBlock ic [0x4a] v)) (m\<lparr>ConstantinopleBlock := v\<rparr>)"
  by (rule loop_optIntBlock[where upd="\<lambda>v. m\<lparr>ConstantinopleBlock := v\<rparr>" and fn=9 and field="(ChainConfig_field ic)" and m=m and ic=ic, OF ChainConfig_decoder])
     (use assms in \<open>simp_all add: ChainConfig_field_def tag_literals Int_ok_def\<close>)

lemma ChainConfig_block_PetersburgBlock:
  assumes "length (pre @ optIntBlock ic [0x52] v @ rest) < 2 ^ 63" and "PetersburgBlock m = None" and "Int_ok ic v"
  shows "ChainConfig_loop ic (pre @ optIntBlock ic [0x52] v @ rest) (length pre) m
    = ChainConfig_loop ic ((pre @ optIntBlock ic [0x52] v) @ rest) (length (pre @ optIntBlock ic [0x52] v)) (m\<lparr>PetersburgBlock := v\<rparr>)"
  by (rule loop_optIntBlock[where upd="\<lambda>v. m\<lparr>PetersburgBlock := v\<rparr>" and fn=10 and field="(ChainConfig_field ic)" and m=m and ic=ic, OF ChainConfig_decoder])
     (use assms in \<open>simp_all add: ChainConfig_field_def tag_literals Int_ok_def\<close>)

lemma ChainConfig_block_IstanbulBlock:
  assumes "length (pre @ optIntBlock ic [0x5a] v @ rest) < 2 ^ 63" and "IstanbulBlock m = None" and "Int_ok ic v"
  shows "ChainConfig_loop ic (pre @ optIntBlock ic [0x5a] v @ rest) (length pre) m
    = ChainConfig_loop ic ((pre @ optIntBlock ic [0x5a] v) @ rest) (length (pre @ optIntBlock ic [0x5a] v)) (m\<lparr>IstanbulBlock := v\<rparr>)"
  by (rule loop_optIntBlock[where upd="\<lambda>v. m\<lparr>IstanbulBlock := v\<rparr>" and fn=11 and field="(ChainConfig_field ic)" and m=m and ic=ic, OF ChainConfig_decoder])
     (use assms in \<open>simp_all add: ChainConfig_field_def tag_literals Int_ok_def\<close>)

lemma ChainConfig_block_MuirGlacierBlock:
  assumes "length (pre @ optIntBlock ic [0x62] v @ rest) < 2 ^ 63" and "MuirGlacierBlock m = None" and "Int_ok ic v"
  shows "ChainConfig_loop ic (pre @ optIntBlock ic [0x62] v @ rest) (length pre) m
    = ChainConfig_loop ic ((pre @ optIntBlock ic [0x62] v) @ rest) (length (pre @ optIntBlock ic [0x62] v)) (m\<lparr>MuirGlacierBlock := v\<rparr>)"
  by (rule loop_optIntBlock[where upd="\<lambda>v. m\<lparr>MuirGlacierBlock := v\<rparr>" and fn=12 and field="(ChainConfig_field ic)" and m=m and ic=ic, OF ChainConfig_decoder])
     (use assms in \<open>simp_all add: ChainConfig_field_def tag_literals Int_ok_def\<close>)

lemma ChainConfig_block_BerlinBlock:
  assumes "length (pre @ optIntBlock ic [0x6a] v @ rest) < 2 ^ 63" and "BerlinBlock m = None" and "Int_ok ic v"
  shows "ChainConfig_loop ic (pre @ optIntBlock ic [0x6a] v @ rest) (length pre) m
    = ChainConfig_loop ic ((pre @ optIntBlock ic [0x6a] v) @ rest) (length (pre @ optIntBlock ic [0x6a] v)) (m\<lparr>BerlinBlock := v\<rparr>)"
  by (rule loop_optIntBlock[where upd="\<lambda>v. m\<lparr>BerlinBlock := v\<rparr>" and fn=13 and field="(ChainConfig_field ic)" and m=m and ic=ic, OF ChainConfig_decoder])
     (use assms in \<open>simp_all add: ChainConfig_field_def tag_literals Int_ok_def\<close>)

lemma ChainConfig_block_LondonBlock:
  assumes "length (pre @ optIntBlock ic [0x8a, 0x1] v @ rest) < 2 ^ 63" and "LondonBlock m = None" and "Int_ok ic v"
  shows "ChainConfig_loop ic (pre @ optIntBlock ic [0x8a, 0x1] v @ rest) (length pre) m
    = ChainConfig_loop ic ((pre @ optIntBlock ic [0x8a, 0x1] v) @ rest) (length (pre @ optIntBlock ic [0x8a, 0x1] v)) (m\<lparr>LondonBlock := v\<rparr>)"
  by (rule loop_optIntBlock[where upd="\<lambda>v. m\<lparr>LondonBlock := v\<rparr>" and fn=17 and field="(ChainConfig_field ic)" and m=m and ic=ic, OF ChainConfig_decoder])
     (use assms in \<open>simp_all add: ChainConfig_field_def tag_literals Int_ok_def\<close>)

lemma ChainConfig_block_ArrowGlacierBlock:
  assumes "length (pre @ optIntBlock ic [0x92, 0x1] v @ rest) < 2 ^ 63" and "ArrowGlacierBlock m = None" and "Int_ok ic v"
  shows "ChainConfig_loop ic (pre @ optIntBlock ic [0x92, 0x1] v @ rest) (length pre) m
    = ChainConfig_loop ic ((pre @ optIntBlock ic [0x92, 0x1] v) @ rest) (length (pre @ optIntBlock ic [0x92, 0x1] v)) (m\<lparr>ArrowGlacierBlock := v\<rparr>)"
  by (rule loop_optIntBlock[where upd="\<lambda>v. m\<lparr>ArrowGlacierBlock := v\<rparr>" and fn=18 and field="(ChainConfig_field ic)" and m=m and ic=ic, OF ChainConfig_decoder])
     (use assms in \<open>simp_all add: ChainConfig_field_def tag_literals Int_ok_def\<close>)

lemma ChainConfig_block_GrayGlacierBlock:
  assumes "length (pre @ optIntBlock ic [0xa2, 0x1] v @ rest) < 2 ^ 63" and "GrayGlacierBlock m = None" and "Int_ok ic v"
  shows "ChainConfig_loop ic (pre @ optIntBlock ic [0xa2, 0x1] v @ rest) (length pre) m
    = ChainConfig_loop ic ((pre @ optIntBlock ic [0xa2, 0x1] v) @ rest) (length (pre @ optIntBlock ic [0xa2, 0x1] v)) (m\<lparr>GrayGlacierBlock := v\<rparr>)"
  by (rule loop_optIntBlock[where upd="\<lambda>v. m\<lparr>GrayGlacierBlock := v\<rparr>" and fn=20 and field="(ChainConfig_field ic)" and m=m and ic=ic, OF ChainConfig_decoder])
     (use assms in \<open>simp_all add: ChainConfig_field_def tag_literals Int_ok_def\<close>)

lemma ChainConfig_block_MergeNetsplitBlock:
  assumes "length (pre @ optIntBlock ic [0xaa, 0x1] v @ rest) < 2 ^ 63" and "MergeNetsplitBlock m = None" and "Int_ok ic v"
  shows "ChainConfig_loop ic (pre @ optIntBlock ic [0xaa, 0x1] v @ rest) (length pre) m
    = ChainConfig_loop ic ((pre @ optIntBlock ic [0xaa, 0x1] v) @ rest) (length (pre @ optIntBlock ic [0xaa, 0x1] v)) (m\<lparr>MergeNetsplitBlock := v\<rparr>)"
  by (rule loop_optIntBlock[where upd="\<lambda>v. m\<lparr>MergeNetsplitBlock := v\<rparr>" and fn=21 and field="(ChainConfig_field ic)" and m=m and ic=ic, OF ChainConfig_decoder])
     (use assms in \<open>simp_all add: ChainConfig_field_def tag_literals Int_ok_def\<close>)

lemma ChainConfig_block_ShanghaiBlock:
  assumes "length (pre @ optIntBlock ic [0xb2, 0x1] v @ rest) < 2 ^ 63" and "ShanghaiBlock m = None" and "Int_ok ic v"
  shows "ChainConfig_loop ic (pre @ optIntBlock ic [0xb2, 0x1] v @ rest) (length pre) m
    = ChainConfig_loop ic ((pre @ optIntBlock ic [0xb2, 0x1] v) @ rest) (length (pre @ optIntBlock ic [0xb2, 0x1] v)) (m\<lparr>ShanghaiBlock := v\<rparr>)"
  by (rule loop_optIntBlock[where upd="\<lambda>v. m\<lparr>ShanghaiBlock := v\<rparr>" and fn=22 and field="(ChainConfig_field ic)" and m=m and ic=ic, OF ChainConfig_decoder])
     (use assms in \<open>simp_all add: ChainConfig_field_def tag_literals Int_ok_def\<close>)

lemma ChainConfig_block_CancunBlock:
  assumes "length (pre @ optIntBlock ic [0xba, 0x1] v @ rest) < 2 ^ 63" and "CancunBlock m = None" and "Int_ok ic v"
  shows "ChainConfig_loop ic (pre @ optIntBlock ic [0xba, 0x1] v @ rest) (length pre) m
    = ChainConfig_loop ic ((pre @ optIntBlock ic [0xba, 0x1] v) @ rest) (length (pre @ optIntBlock ic [0xba, 0x1] v)) (m\<lparr>CancunBlock := v\<rparr>)"
  by (rule loop_optIntBlock[where upd="\<lambda>v. m\<lparr>CancunBlock := v\<rparr>" and fn=23 and field="(ChainConfig_field ic)" and m=m and ic=ic, OF ChainConfig_decoder])
     (use assms in \<open>simp_all add: ChainConfig_field_def tag_literals Int_ok_def\<close>)

lemma ChainConfig_chain:
  assumes L: "length (pre @ ChainConfig_MarshalToSizedBuffer ic x @ rest) < 2 ^ 63"
    and V: "ChainConfig_valid ic x"
  shows "ChainConfig_loop ic (pre @ ChainConfig_MarshalToSizedBuffer ic x @ rest) (length pre) ChainConfig_zero
    = ChainConfig_loop ic (pre @ ChainConfig_MarshalToSizedBuffer ic x @ rest) (length pre + length (ChainConfig_MarshalToSizedBuffer ic x)) x"
proof -
  let ?B1 = "optIntBlock ic [0xa] (HomesteadBlock x)"
  let ?B2 = "optIntBlock ic [0x12] (DAOForkBlock x)"
  let ?B3 = "boolBlock [0x18] (DAOForkSupport x)"
  let ?B4 = "optIntBlock ic [0x22] (EIP150Block x)"
  let ?B5 = "bytesBlock [0x2a] (EIP150Hash x)"
  let ?B6 = "optIntBlock ic [0x32] (EIP155Block x)"
  let ?B7 = "optIntBlock ic [0x3a] (EIP158Block x)"
  let ?B8 = "optIntBlock ic [0x42] (ByzantiumBlock x)"
  let ?B9 = "optIntBlock ic [0x4a] (ConstantinopleBlock x)"
  let ?B10 = "optIntBlock ic [0x52] (PetersburgBlock x)"
  let ?B11 = "optIntBlock ic [0x5a] (IstanbulBlock x)"
  let ?B12 = "optIntBlock ic [0x62] (MuirGlacierBlock x)"
  let ?B13 = "optIntBlock ic [0x6a] (BerlinBlock x)"
  let ?B14 = "optIntBlock ic [0x8a, 0x1] (LondonBlock x)"
  let ?B15 = "optIntBlock ic [0x92, 0x1] (ArrowGlacierBlock x)"
  let ?B16 = "optIntBlock ic [0xa2, 0x1] (GrayGlacierBlock x)"
  let ?B17 = "optIntBlock ic [0xaa, 0x1] (MergeNetsplitBlock x)"
  let ?B18 = "optIntBlock ic [0xb2, 0x1] (ShanghaiBlock x)"
  let ?B19 = "optIntBlock ic [0xba, 0x1] (CancunBlock x)"
  let ?m1 = "ChainConfig_zero\<lparr>HomesteadBlock := HomesteadBlock x\<rparr>"
  let ?m2 = "?m1\<lparr>DAOForkBlock := DAOForkBlock x\<rparr>"
  let ?m3 = "?m2\<lparr>DAOForkSupport := DAOForkSupport x\<rparr>"
  let ?m4 = "?m3\<lparr>EIP150Block := EIP150Block x\<rparr>"
  let ?m5 = "?m4\<lparr>EIP150Hash := EIP150Hash x\<rparr>"
  let ?m6 = "?m5\<lparr>EIP155Block := EIP155Block x\<rparr>"
  let ?m7 = "?m6\<lparr>EIP158Block := EIP158Block x\<rparr>"
  let ?m8 = "?m7\<lparr>ByzantiumBlock := ByzantiumBlock x\<rparr>"
  let ?m9 = "?m8\<lparr>ConstantinopleBlock := ConstantinopleBlock x\<rparr>"
  let ?m10 = "?m9\<lparr>PetersburgBlock := PetersburgBlock x\<rparr>"
  let ?m11 = "?m10\<lparr>IstanbulBlock := IstanbulBlock x\<rparr>"
  let ?m12 = "?m11\<lparr>MuirGlacierBlock := MuirGlacierBlock x\<rparr>"
  let ?m13 = "?m12\<lparr>BerlinBlock := BerlinBlock x\<rparr>"
  let ?m14 = "?m13\<lparr>LondonBlock := LondonBlock x\<rparr>"
  let ?m15 = "?m14\<lparr>ArrowGlacierBlock := ArrowGlacierBlock x\<rparr>"
  let ?m16 = "?m15\<lparr>GrayGlacierBlock := GrayGlacierBlock x\<rparr>"
  let ?m17 = "?m16\<lparr>MergeNetsplitBlock := MergeNetsplitBlock x\<rparr>"
  let ?m18 = "?m17\<lparr>ShanghaiBlock := ShanghaiBlock x\<rparr>"
  let ?m19 = "?m18\<lparr>CancunBlock := CancunBlock x\<rparr>"
  have E: "pre @ ChainConfig_MarshalToSizedBuffer ic x @ rest = pre @ ?B1 @ ?B2 @ ?B3 @ ?B4 @ ?B5 @ ?B6 @ ?B7 @ ?B8 @ ?B9 @ ?B10 @ ?B11 @ ?B12 @ ?B13 @ ?B14 @ ?B15 @ ?B16 @ ?B17 @ ?B18 @ ?B19 @ rest"
    by (simp add: ChainConfig_MarshalToSizedBuffer_def)
  note L' = L[unfolded E]
  have "ChainConfig_loop ic (pre @ ?B1 @ ?B2 @ ?B3 @ ?B4 @ ?B5 @ ?B6 @ ?B7 @ ?B8 @ ?B9 @ ?B10 @ ?B11 @ ?B12 @ ?B13 @ ?B14 @ ?B15 @ ?B16 @ ?B17 @ ?B18 @ ?B19 @ rest) (length pre) ChainConfig_zero
      = ChainConfig_loop ic ((pre @ ?B1) @ ?B2 @ ?B3 @ ?B4 @ ?B5 @ ?B6 @ ?B7 @ ?B8 @ ?B9 @ ?B10 @ ?B11 @ ?B12 @ ?B13 @ ?B14 @ ?B15 @ ?B16 @ ?B17 @ ?B18 @ ?B19 @ rest) (length (pre @ ?B1)) ?m1"
    by (rule ChainConfig_block_HomesteadBlock) (use L' V[unfolded ChainConfig_valid_def] in \<open>simp_all add: ChainConfig_zero_def\<close>)
  also have "\<dots> = ChainConfig_loop ic (((pre @ ?B1) @ ?B2) @ ?B3 @ ?B4 @ ?B5 @ ?B6 @ ?B7 @ ?B8 @ ?B9 @ ?B10 @ ?B11 @ ?B12 @ ?B13 @ ?B14 @ ?B15 @ ?B16 @ ?B17 @ ?B18 @ ?B19 @ rest) (length ((pre @ ?B1) @ ?B2)) ?m2"
    by (rule ChainConfig_block_DAOForkBlock) (use L' V[unfolded ChainConfig_valid_def] in \<open>simp_all add: ChainConfig_zero_def\<close>)
  also have "\<dots> = ChainConfig_loop ic ((((pre @ ?B1) @ ?B2) @ ?B3) @ ?B4 @ ?B5 @ ?B6 @ ?B7 @ ?B8 @ ?B9 @ ?B10 @ ?B11 @ ?B12 @ ?B13 @ ?B14 @ ?B15 @ ?B16 @ ?B17 @ ?B18 @ ?B19 @ rest) (length (((pre @ ?B1) @ ?B2) @ ?B3)) ?m3"
    by (rule ChainConfig_block_DAOForkSupport) (use L' V[unfolded ChainConfig_valid_def] in \<open>simp_all add: ChainConfig_zero_def\<close>)
  also have "\<dots> = ChainConfig_loop ic (((((pre @ ?B1) @ ?B2) @ ?B3) @ ?B4) @ ?B5 @ ?B6 @ ?B7 @ ?B8 @ ?B9 @ ?B10 @ ?B11 @ ?B12 @ ?B13 @ ?B14 @ ?B15 @ ?B16 @ ?B17 @ ?B18 @ ?B19 @ rest) (length ((((pre @ ?B1) @ ?B2) @ ?B3) @ ?B4)) ?m4"
    by (rule ChainConfig_block_EIP150Block) (use L' V[unfolded ChainConfig_valid_def] in \<open>simp_all add: ChainConfig_zero_def\<close>)
  also have "\<dots> = ChainConfig_loop ic ((((((pre @ ?B1) @ ?B2) @ ?B3) @ ?B4) @ ?B5) @ ?B6 @ ?B7 @ ?B8 @ ?B9 @ ?B10 @ ?B11 @ ?B12 @ ?B13 @ ?B14 @ ?B15 @ ?B16 @ ?B17 @ ?B18 @ ?B19 @ rest) (length (((((pre @ ?B1) @ ?B2) @ ?B3) @ ?B4) @ ?B5)) ?m5"
    by (rule ChainConfig_block_EIP150Hash) (use L' V[unfolded ChainConfig_valid_def] in \<open>simp_all add: ChainConfig_zero_def\<close>)
  also have "\<dots> = ChainConfig_loop ic (((((((pre @ ?B1) @ ?B2) @ ?B3) @ ?B4) @ ?B5) @ ?B6) @ ?B7 @ ?B8 @ ?B9 @ ?B10 @ ?B11 @ ?B12 @ ?B13 @ ?B14 @ ?B15 @ ?B16 @ ?B17 @ ?B18 @ ?B19 @ rest) (length ((((((pre @ ?B1) @ ?B2) @ ?B3) @ ?B4) @ ?B5) @ ?B6)) ?m6"
    by (rule ChainConfig_block_EIP155Block) (use L' V[unfolded ChainConfig_valid_def] in \<open>simp_all add: ChainConfig_zero_def\<close>)
  also have "\<dots> = ChainConfig_loop ic ((((((((pre @ ?B1) @ ?B2) @ ?B3) @ ?B4) @ ?B5) @ ?B6) @ ?B7) @ ?B8 @ ?B9 @ ?B10 @ ?B11 @ ?B12 @ ?B13 @ ?B14 @ ?B15 @ ?B16 @ ?B17 @ ?B18 @ ?B19 @ rest) (length (((((((pre @ ?B1) @ ?B2) @ ?B3) @ ?B4) @ ?B5) @ ?B6) @ ?B7)) ?m7"
    by (rule ChainConfig_block_EIP158Block) (use L' V[unfolded ChainConfig_valid_def] in \<open>simp_all add: ChainConfig_zero_def\<close>)
  also have "\<dots> = ChainConfig_loop ic (((((((((pre @ ?B1) @ ?B2) @ ?B3) @ ?B4) @ ?B5) @ ?B6) @ ?B7) @ ?B8) @ ?B9 @ ?B10 @ ?B11 @ ?B12 @ ?B13 @ ?B14 @ ?B15 @ ?B16 @ ?B17 @ ?B18 @ ?B19 @ rest) (length ((((((((pre @ ?B1) @ ?B2) @ ?B3) @ ?B4) @ ?B5) @ ?B6) @ ?B7) @ ?B8)) ?m8"
    by (rule ChainConfig_block_ByzantiumBlock) (use L' V[unfolded ChainConfig_valid_def] in \<open>simp_all add: ChainConfig_zero_def\<close>)
  also have "\<dots> = ChainConfig_loop ic ((((((((((pre @ ?B1) @ ?B2) @ ?B3) @ ?B4) @ ?B5) @ ?B6) @ ?B7) @ ?B8) @ ?B9) @ ?B10 @ ?B11 @ ?B12 @ ?B13 @ ?B14 @ ?B15 @ ?B16 @ ?B17 @ ?B18 @ ?B19 @ rest) (length (((((((((pre @ ?B1) @ ?B2) @ ?B3) @ ?B4) @ ?B5) @ ?B6) @ ?B7) @ ?B8) @ ?B9)) ?m9"
    by (rule ChainConfig_block_ConstantinopleBlock) (use L' V[unfolded ChainConfig_valid_def] in \<open>simp_all add: ChainConfig_zero_def\<close>)
  also have "\<dots> = ChainConfig_loop ic (((((((((((pre @ ?B1) @ ?B2) @ ?B3) @ ?B4) @ ?B5) @ ?B6) @ ?B7) @ ?B8) @ ?B9) @ ?B10) @ ?B11 @ ?B12 @ ?B13 @ ?B14 @ ?B15 @ ?B16 @ ?B17 @ ?B18 @ ?B19 @ rest) (length ((((((((((pre @ ?B1) @ ?B2) @ ?B3) @ ?B4) @ ?B5) @ ?B6) @ ?B7) @ ?B8) @ ?B9) @ ?B10)) ?m10"
    by (rule ChainConfig_block_PetersburgBlock) (use L' V[unfolded ChainConfig_valid_def] in \<open>simp_all add: ChainConfig_zero_def\<close>)
  also have "\<dots> = ChainConfig_loop ic ((((((((((((pre @ ?B1) @ ?B2) @ ?B3) @ ?B4) @ ?B5) @ ?B6) @ ?B7) @ ?B8) @ ?B9) @ ?B10) @ ?B11) @ ?B12 @ ?B13 @ ?B14 @ ?B15 @ ?B16 @ ?B17 @ ?B18 @ ?B19 @ rest) (length (((((((((((pre @ ?B1) @ ?B2) @ ?B3) @ ?B4) @ ?B5) @ ?B6) @ ?B7) @ ?B8) @ ?B9) @ ?B10) @ ?B11)) ?m11"
    by (rule ChainConfig_block_IstanbulBlock) (use L' V[unfolded ChainConfig_valid_def] in \<open>simp_all add: ChainConfig_zero_def\<close>)
  also have "\<dots> = ChainConfig_loop ic (((((((((((((pre @ ?B1) @ ?B2) @ ?B3) @ ?B4) @ ?B5) @ ?B6) @ ?B7) @ ?B8) @ ?B9) @ ?B10) @ ?B11) @ ?B12) @ ?B13 @ ?B14 @ ?B15 @ ?B16 @ ?B17 @ ?B18 @ ?B19 @ rest) (length ((((((((((((pre @ ?B1) @ ?B2) @ ?B3) @ ?B4) @ ?B5) @ ?B6) @ ?B7) @ ?B8) @ ?B9) @ ?B10) @ ?B11) @ ?B12)) ?m12"
    by (rule ChainConfig_block_MuirGlacierBlock) (use L' V[unfolded ChainConfig_valid_def] in \<open>simp_all add: ChainConfig_zero_def\<close>)
  also have "\<dots> = ChainConfig_loop ic ((((((((((((((pre @ ?B1) @ ?B2) @ ?B3) @ ?B4) @ ?B5) @ ?B6) @ ?B7) @ ?B8) @ ?B9) @ ?B10) @ ?B11) @ ?B12) @ ?B13) @ ?B14 @ ?B15 @ ?B16 @ ?B17 @ ?B18 @ ?B19 @ rest) (length (((((((((((((pre @ ?B1) @ ?B2) @ ?B3) @ ?B4) @ ?B5) @ ?B6) @ ?B7) @ ?B8) @ ?B9) @ ?B10) @ ?B11) @ ?B12) @ ?B13)) ?m13"
    by (rule ChainConfig_block_BerlinBlock) (use L' V[unfolded ChainConfig_valid_def] in \<open>simp_all add: ChainConfig_zero_def\<close>)
  also have "\<dots> = ChainConfig_loop ic (((((((((((((((pre @ ?B1) @ ?B2) @ ?B3) @ ?B4) @ ?B5) @ ?B6) @ ?B7) @ ?B8) @ ?B9) @ ?B10) @ ?B11) @ ?B12) @ ?B13) @ ?B14) @ ?B15 @ ?B16 @ ?B17 @ ?B18 @ ?B19 @ rest) (length ((((((((((((((pre @ ?B1) @ ?B2) @ ?B3) @ ?B4) @ ?B5) @ ?B6) @ ?B7) @ ?B8) @ ?B9) @ ?B10) @ ?B11) @ ?B12) @ ?B13) @ ?B14)) ?m14"
    by (rule ChainConfig_block_LondonBlock) (use L' V[unfolded ChainConfig_valid_def] in \<open>simp_all add: ChainConfig_zero_def\<close>)
  also have "\<dots> = ChainConfig_loop ic ((((((((((((((((pre @ ?B1) @ ?B2) @ ?B3) @ ?B4) @ ?B5) @ ?B6) @ ?B7) @ ?B8) @ ?B9) @ ?B10) @ ?B11) @ ?B12) @ ?B13) @ ?B14) @ ?B15) @ ?B16 @ ?B17 @ ?B18 @ ?B19 @ rest) (length (((((((((((((((pre @ ?B1) @ ?B2) @ ?B3) @ ?B4) @ ?B5) @ ?B6) @ ?B7) @ ?B8) @ ?B9) @ ?B10) @ ?B11) @ ?B12) @ ?B13) @ ?B14) @ ?B15)) ?m15"
    by (rule ChainConfig_block_ArrowGlacierBlock) (use L' V[unfolded ChainConfig_valid_def] in \<open>simp_all add: ChainConfig_zero_def\<close>)
  also have "\<dots> = ChainConfig_loop ic (((((((((((((((((pre @ ?B1) @ ?B2) @ ?B3) @ ?B4) @ ?B5) @ ?B6) @ ?B7) @ ?B8) @ ?B9) @ ?B10) @ ?B11) @ ?B12) @ ?B13) @ ?B14) @ ?B15) @ ?B16) @ ?B17 @ ?B18 @ ?B19 @ rest) (length ((((((((((((((((pre @ ?B1) @ ?B2) @ ?B3) @ ?B4) @ ?B5) @ ?B6) @ ?B7) @ ?B8) @ ?B9) @ ?B10) @ ?B11) @ ?B12) @ ?B13) @ ?B14) @ ?B15) @ ?B16)) ?m16"
    by (rule ChainConfig_block_GrayGlacierBlock) (use L' V[unfolded ChainConfig_valid_def] in \<open>simp_all add: ChainConfig_zero_def\<close>)
  also have "\<dots> = ChainConfig_loop ic ((((((((((((((((((pre @ ?B1) @ ?B2) @ ?B3) @ ?B4) @ ?B5) @ ?B6) @ ?B7) @ ?B8) @ ?B9) @ ?B10) @ ?B11) @ ?B12) @ ?B13) @ ?B14) @ ?B15) @ ?B16) @ ?B17) @ ?B18 @ ?B19 @ rest) (length (((((((((((((((((pre @ ?B1) @ ?B2) @ ?B3) @ ?B4) @ ?B5) @ ?B6) @ ?B7) @ ?B8) @ ?B9) @ ?B10) @ ?B11) @ ?B12) @ ?B13) @ ?B14) @ ?B15) @ ?B16) @ ?B17)) ?m17"
    by (rule ChainConfig_block_MergeNetsplitBlock) (use L' V[unfolded ChainConfig_valid_def] in \<open>simp_all add: ChainConfig_zero_def\<close>)
  also have "\<dots> = ChainConfig_loop ic (((((((((((((((((((pre @ ?B1) @ ?B2) @ ?B3) @ ?B4) @ ?B5) @ ?B6) @ ?B7) @ ?B8) @ ?B9) @ ?B10) @ ?B11) @ ?B12) @ ?B13) @ ?B14) @ ?B15) @ ?B16) @ ?B17) @ ?B18) @ ?B19 @ rest) (length ((((((((((((((((((pre @ ?B1) @ ?B2) @ ?B3) @ ?B4) @ ?B5) @ ?B6) @ ?B7) @ ?B8) @ ?B9) @ ?B10) @ ?B11) @ ?B12) @ ?B13) @ ?B14) @ ?B15) @ ?B16) @ ?B17) @ ?B18)) ?m18"
    by (rule ChainConfig_block_ShanghaiBlock) (use L' V[unfolded ChainConfig_valid_def] in \<open>simp_all add: ChainConfig_zero_def\<close>)
  also have "\<dots> = ChainConfig_loop ic ((((((((((((((((((((pre @ ?B1) @ ?B2) @ ?B3) @ ?B4) @ ?B5) @ ?B6) @ ?B7) @ ?B8) @ ?B9) @ ?B10) @ ?B11) @ ?B12) @ ?B13) @ ?B14) @ ?B15) @ ?B16) @ ?B17) @ ?B18) @ ?B19) @ rest) (length (((((((((((((((((((pre @ ?B1) @ ?B2) @ ?B3) @ ?B4) @ ?B5) @ ?B6) @ ?B7) @ ?B8) @ ?B9) @ ?B10) @ ?B11) @ ?B12) @ ?B13) @ ?B14) @ ?B15) @ ?B16) @ ?B17) @ ?B18) @ ?B19)) ?m19"
    by (rule ChainConfig_block_CancunBlock) (use L' V[unfolded ChainConfig_valid_def] in \<open>simp_all add: ChainConfig_zero_def\<close>)
  finally have C: "ChainConfig_loop ic (pre @ ?B1 @ ?B2 @ ?B3 @ ?B4 @ ?B5 @ ?B6 @ ?B7 @ ?B8 @ ?B9 @ ?B10 @ ?B11 @ ?B12 @ ?B13 @ ?B14 @ ?B15 @ ?B16 @ ?B17 @ ?B18 @ ?B19 @ rest) (length pre) ChainConfig_zero
      = ChainConfig_loop ic ((((((((((((((((((((pre @ ?B1) @ ?B2) @ ?B3) @ ?B4) @ ?B5) @ ?B6) @ ?B7) @ ?B8) @ ?B9) @ ?B10) @ ?B11) @ ?B12) @ ?B13) @ ?B14) @ ?B15) @ ?B16) @ ?B17) @ ?B18) @ ?B19) @ rest) (length (((((((((((((((((((pre @ ?B1) @ ?B2) @ ?B3) @ ?B4) @ ?B5) @ ?B6) @ ?B7) @ ?B8) @ ?B9) @ ?B10) @ ?B11) @ ?B12) @ ?B13) @ ?B14) @ ?B15) @ ?B16) @ ?B17) @ ?B18) @ ?B19)) ?m19" .
  have M: "?m19 = x" by (simp add: ChainConfig_zero_def)
  have A: "(((((((((((((((((((pre @ ?B1) @ ?B2) @ ?B3) @ ?B4) @ ?B5) @ ?B6) @ ?B7) @ ?B8) @ ?B9) @ ?B10) @ ?B11) @ ?B12) @ ?B13) @ ?B14) @ ?B15) @ ?B16) @ ?B17) @ ?B18) @ ?B19) @ rest = pre @ ChainConfig_MarshalToSizedBuffer ic x @ rest"
    by (simp add: ChainConfig_MarshalToSizedBuffer_def)
  have N: "length (((((((((((((((((((pre @ ?B1) @ ?B2) @ ?B3) @ ?B4) @ ?B5) @ ?B6) @ ?B7) @ ?B8) @ ?B9) @ ?B10) @ ?B11) @ ?B12) @ ?B13) @ ?B14) @ ?B15) @ ?B16) @ ?B17) @ ?B18) @ ?B19) = length pre + length (ChainConfig_MarshalToSizedBuffer ic x)"
    by (simp add: ChainConfig_MarshalToSizedBuffer_def)
  show ?thesis using C unfolding M A N E[symmetric] .
qed

text \<open>Decoding what \<open>ChainConfig.MarshalToSizedBuffer\<close> wrote, into a fresh message.\<close>

lemma ChainConfig_roundtrip:
  assumes "ChainConfig_Size ic x < 2 ^ 63" and "ChainConfig_valid ic x"
  shows "ChainConfig_Unmarshal ic (ChainConfig_MarshalToSizedBuffer ic x) ChainConfig_zero = Inr x"
  using ChainConfig_chain[of "[]" ic x "[]"] assms decoder_loop_end[OF ChainConfig_decoder, where d="ChainConfig_MarshalToSizedBuffer ic x" and m=x]
  by (simp add: ChainConfig_Unmarshal_def)

subsection \<open>Params\<close>

lemma Params_decoder: "decoder (Params_loop ic) (Params_step ic) (Params_field ic)"
  unfolding decoder_def
  by (intro conjI allI) (subst Params_loop.simps, simp, simp add: Params_step_def)

lemma Params_block_EvmDenom:
  assumes "length (pre @ bytesBlock [0xa] v @ rest) < 2 ^ 63" and "EvmDenom m = []"
  shows "Params_loop ic (pre @ bytesBlock [0xa] v @ rest) (length pre) m
    = Params_loop ic ((pre @ bytesBlock [0xa] v) @ rest) (length (pre @ bytesBlock [0xa] v)) (m\<lparr>EvmDenom := v\<rparr>)"
  by (rule loop_bytesBlock[where upd="\<lambda>s. m\<lparr>EvmDenom := s\<rparr>" and fn=1 and field="(Params_field ic)" and m=m, OF Params_decoder])
     (use assms in \<open>simp_all add: Params_field_def tag_literals\<close>)

lemma Params_block_EnableCreate:
  assumes "EnableCreate m = False"
  shows "Params_loop ic (pre @ boolBlock [0x10] v @ rest) (length pre) m
    = Params_loop ic ((pre @ boolBlock [0x10] v) @ rest) (length (pre @ boolBlock [0x10] v)) (m\<lparr>EnableCreate := v\<rparr>)"
  by (rule loop_boolBlock[where upd="\<lambda>b. m\<lparr>EnableCreate := b\<rparr>" and fn=2 and field="(Params_field ic)" and m=m, OF Params_decoder])
     (use assms in \<open>simp_all add: Params_field_def tag_literals\<close>)

lemma Params_block_EnableCall:
  assumes "EnableCall m = False"
  shows "Params_loop ic (pre @ boolBlock [0x18] v @ rest) (length pre) m
    = Params_loop ic ((pre @ boolBlock [0x18] v) @ rest) (length (pre @ boolBlock [0x18] v)) (m\<lparr>EnableCall := v\<rparr>)"
  by (rule loop_boolBlock[where upd="\<lambda>b. m\<lparr>EnableCall := b\<rparr>" and fn=3 and field="(Params_field ic)" and m=m, OF Params_decoder])
     (use assms in \<open>simp_all add: Params_field_def tag_literals\<close>)

lemma Params_block_ExtraEIPs:
  assumes "length (pre @ packedBlock [0x22] v @ rest) < 2 ^ 63"
  shows "Params_loop ic (pre @ packedBlock [0x22] v @ rest) (length pre) m
    = Params_loop ic ((pre @ packedBlock [0x22] v) @ rest) (length (pre @ packedBlock [0x22] v)) (m\<lparr>ExtraEIPs := ExtraEIPs m @ v\<rparr>)"
  by (rule loop_packedBlock[where upd="\<lambda>vs. m\<lparr>ExtraEIPs := ExtraEIPs m @ vs\<rparr>" and fn=4 and field="(Params_field ic)" and m=m, OF Params_decoder])
     (use assms in \<open>simp_all add: Params_field_def tag_literals\<close>)

lemma Params_block_ChainConfig:
  assumes "length (pre @ lenDelim [0x2a] (ChainConfig_MarshalToSizedBuffer ic v) @ rest) < 2 ^ 63" and "ChainConfig m = ChainConfig_zero" and "ChainConfig_valid ic v"
  shows "Params_loop ic (pre @ lenDelim [0x2a] (ChainConfig_MarshalToSizedBuffer ic v) @ rest) (length pre) m
    = Params_loop ic ((pre @ lenDelim [0x2a] (ChainConfig_MarshalToSizedBuffer ic v)) @ rest) (length (pre @ lenDelim [0x2a] (ChainConfig_MarshalToSizedBuffer ic v))) (m\<lparr>ChainConfig := v\<rparr>)"
proof -
  have sz: "ChainConfig_Size ic v < 2 ^ 63" using assms(1) by (simp add: sizeLenDelim_def)
  note rt = ChainConfig_roundtrip[OF sz assms(3)]
  show ?thesis
    by (rule loop_lenDelim[where g="\<lambda>bs. case ChainConfig_Unmarshal ic bs (ChainConfig m) of Inl e \<Rightarrow> Inl e | Inr c \<Rightarrow> Inr (m\<lparr>ChainConfig := c\<rparr>)"
          and fn=5 and field="(Params_field ic)" and m=m, OF Params_decoder])
       (use assms rt in \<open>simp_all add: Params_field_def tag_literals\<close>)
qed

lemma Params_block_AllowUnprotectedTxs:
  assumes "AllowUnprotectedTxs m = False"
  shows "Params_loop ic (pre @ boolBlock [0x30] v @ rest) (length pre) m
    = Params_loop ic ((pre @ boolBlock [0x30] v) @ rest) (length (pre @ boolBlock [0x30] v)) (m\<lparr>AllowUnprotectedTxs := v\<rparr>)"
  by (rule loop_boolBlock[where upd="\<lambda>b. m\<lparr>AllowUnprotectedTxs := b\<rparr>" and fn=6 and field="(Params_field ic)" and m=m, OF Params_decoder])
     (use assms in \<open>simp_all add: Params_field_def tag_literals\<close>)

lemma Params_chain:
  assumes L: "length (pre @ Params_MarshalToSizedBuffer ic x @ rest) < 2 ^ 63"
    and V: "Params_valid ic x"
  shows "Params_loop ic (pre @ Params_MarshalToSizedBuffer ic x @ rest) (length pre) Params_zero
    = Params_loop ic (pre @ Params_MarshalToSizedBuffer ic x @ rest) (length pre + length (Params_MarshalToSizedBuffer ic x)) x"
proof -
  let ?B1 = "bytesBlock [0xa] (EvmDenom x)"
  let ?B2 = "boolBlock [0x10] (EnableCreate x)"
  let ?B3 = "boolBlock [0x18] (EnableCall x)"
  let ?B4 = "packedBlock [0x22] (ExtraEIPs x)"
  let ?B5 = "lenDelim [0x2a] (ChainConfig_MarshalToSizedBuffer ic (ChainConfig x))"
  let ?B6 = "boolBlock [0x30] (AllowUnprotectedTxs x)"
  let ?m1 = "Params_zero\<lparr>EvmDenom := EvmDenom x\<rparr>"
  let ?m2 = "?m1\<lparr>EnableCreate := EnableCreate x\<rparr>"
  let ?m3 = "?m2\<lparr>EnableCall := EnableCall x\<rparr>"
  let ?m4 = "?m3\<lparr>ExtraEIPs := ExtraEIPs ?m3 @ ExtraEIPs x\<rparr>"
  let ?m5 = "?m4\<lparr>ChainConfig := ChainConfig x\<rparr>"
  let ?m6 = "?m5\<lparr>AllowUnprotectedTxs := AllowUnprotectedTxs x\<rparr>"
  have E: "pre @ Params_MarshalToSizedBuffer ic x @ rest = pre @ ?B1 @ ?B2 @ ?B3 @ ?B4 @ ?B5 @ ?B6 @ rest"
    by (simp add: Params_MarshalToSizedBuffer_def)
  note L' = L[unfolded E]
  have "Params_loop ic (pre @ ?B1 @ ?B2 @ ?B3 @ ?B4 @ ?B5 @ ?B6 @ rest) (length pre) Params_zero
      = Params_loop ic ((pre @ ?B1) @ ?B2 @ ?B3 @ ?B4 @ ?B5 @ ?B6 @ rest) (length (pre @ ?B1)) ?m1"
    by (rule Params_block_EvmDenom) (use L' V[unfolded Params_valid_def] in \<open>simp_all add: Params_zero_def\<close>)
  also have "\<dots> = Params_loop ic (((pre @ ?B1) @ ?B2) @ ?B3 @ ?B4 @ ?B5 @ ?B6 @ rest) (length ((pre @ ?B1) @ ?B2)) ?m2"
    by (rule Params_block_EnableCreate) (use L' V[unfolded Params_valid_def] in \<open>simp_all add: Params_zero_def\<close>)
  also have "\<dots> = Params_loop ic ((((pre @ ?B1) @ ?B2) @ ?B3) @ ?B4 @ ?B5 @ ?B6 @ rest) (length (((pre @ ?B1) @ ?B2) @ ?B3)) ?m3"
    by (rule Params_block_EnableCall) (use L' V[unfolded Params_valid_def] in \<open>simp_all add: Params_zero_def\<close>)
  also have "\<dots> = Params_loop ic (((((pre @ ?B1) @ ?B2) @ ?B3) @ ?B4) @ ?B5 @ ?B6 @ rest) (length ((((pre @ ?B1) @ ?B2) @ ?B3) @ ?B4)) ?m4"
    by (rule Params_block_ExtraEIPs) (use L' V[unfolded Params_valid_def] in \<open>simp_all add: Params_zero_def\<close>)
  also have "\<dots> = Params_loop ic ((((((pre @ ?B1) @ ?B2) @ ?B3) @ ?B4) @ ?B5) @ ?B6 @ rest) (length (((((pre @ ?B1) @ ?B2) @ ?B3) @ ?B4) @ ?B5)) ?m5"
    by (rule Params_block_ChainConfig) (use L' V[unfolded Params_valid_def] in \<open>simp_all add: Params_zero_def\<close>)
  also have "\<dots> = Params_loop ic (((((((pre @ ?B1) @ ?B2) @ ?B3) @ ?B4) @ ?B5) @ ?B6) @ rest) (length ((((((pre @ ?B1) @ ?B2) @ ?B3) @ ?B4) @ ?B5) @ ?B6)) ?m6"
    by (rule Params_block_AllowUnprotectedTxs) (use L' V[unfolded Params_valid_def] in \<open>simp_all add: Params_zero_def\<close>)
  finally have C: "Params_loop ic (pre @ ?B1 @ ?B2 @ ?B3 @ ?B4 @ ?B5 @ ?B6 @ rest) (length pre) Params_zero
      = Params_loop ic (((((((pre @ ?B1) @ ?B2) @ ?B3) @ ?B4) @ ?B5) @ ?B6) @ rest) (length ((((((pre @ ?B1) @ ?B2) @ ?B3) @ ?B4) @ ?B5) @ ?B6)) ?m6" .
  have M: "?m6 = x" by (simp add: Params_zero_def)
  have A: "((((((pre @ ?B1) @ ?B2) @ ?B3) @ ?B4) @ ?B5) @ ?B6) @ rest = pre @ Params_MarshalToSizedBuffer ic x @ rest"
    by (simp add: Params_MarshalToSizedBuffer_def)
  have N: "length ((((((pre @ ?B1) @ ?B2) @ ?B3) @ ?B4) @ ?B5) @ ?B6) = length pre + length (Params_MarshalToSizedBuffer ic x)"
    by (simp add: Params_MarshalToSizedBuffer_def)
  show ?thesis using C unfolding M A N E[symmetric] .
qed

text \<open>Decoding what \<open>Params.MarshalToSizedBuffer\<close> wrote, into a fresh message.\<close>

lemma Params_roundtrip:
  assumes "Params_Size ic x < 2 ^ 63" and "Params_valid ic x"
  shows "Params_Unmarshal ic (Params_MarshalToSizedBuffer ic x) Params_zero = Inr x"
  using Params_chain[of "[]" ic x "[]"] assms decoder_loop_end[OF Params_decoder, where d="Params_MarshalToSizedBuffer ic x" and m=x]
  by (simp add: Params_Unmarshal_def)

subsection \<open>TraceConfig\<close>

lemma TraceConfig_decoder: "decoder (TraceConfig_loop ic) (TraceConfig_step ic) (TraceConfig_field ic)"
  unfolding decoder_def
  by (intro conjI allI) (subst TraceConfig_loop.simps, simp, simp add: TraceConfig_step_def)

lemma TraceConfig_block_Tracer:
  assumes "length (pre @ bytesBlock [0xa] v @ rest) < 2 ^ 63" and "Tracer m = []"
  shows "TraceConfig_loop ic (pre @ bytesBlock [0xa] v @ rest) (length pre) m
    = TraceConfig_loop ic ((pre @ bytesBlock [0xa] v) @ rest) (length (pre @ bytesBlock [0xa] v)) (m\<lparr>Tracer := v\<rparr>)"
  by (rule loop_bytesBlock[where upd="\<lambda>s. m\<lparr>Tracer := s\<rparr>" and fn=1 and field="(TraceConfig_field ic)" and m=m, OF TraceConfig_decoder])
     (use assms in \<open>simp_all add: TraceConfig_field_def tag_literals\<close>)

lemma TraceConfig_block_Timeout:
  assumes "length (pre @ bytesBlock [0x12] v @ rest) < 2 ^ 63" and "Timeout m = []"
  shows "TraceConfig_loop ic (pre @ bytesBlock [0x12] v @ rest) (length pre) m
    = TraceConfig_loop ic ((pre @ bytesBlock [0x12] v) @ rest) (length (pre @ bytesBlock [0x12] v)) (m\<lparr>Timeout := v\<rparr>)"
  by (rule loop_bytesBlock[where upd="\<lambda>s. m\<lparr>Timeout := s\<rparr>" and fn=2 and field="(TraceConfig_field ic)" and m=m, OF TraceConfig_decoder])
     (use assms in \<open>simp_all add: TraceConfig_field_def tag_literals\<close>)

lemma TraceConfig_block_Reexec:
  assumes "Reexec m = 0"
  shows "TraceConfig_loop ic (pre @ varintBlock [0x18] v @ rest) (length pre) m
    = TraceConfig_loop ic ((pre @ varintBlock [0x18] v) @ rest) (length (pre @ varintBlock [0x18] v)) (m\<lparr>Reexec := v\<rparr>)"
  by (rule loop_varintBlock[where upd="\<lambda>v. m\<lparr>Reexec := v\<rparr>" and fn=3 and field="(TraceConfig_field ic)" and m=m, OF TraceConfig_decoder])
     (use assms in \<open>simp_all add: TraceConfig_field_def tag_literals\<close>)

lemma TraceConfig_block_DisableStack:
  assumes "DisableStack m = False"
  shows "TraceConfig_loop ic (pre @ boolBlock [0x28] v @ rest) (length pre) m
    = TraceConfig_loop ic ((pre @ boolBlock [0x28] v) @ rest) (length (pre @ boolBlock [0x28] v)) (m\<lparr>DisableStack := v\<rparr>)"
  by (rule loop_boolBlock[where upd="\<lambda>b. m\<lparr>DisableStack := b\<rparr>" and fn=5 and field="(TraceConfig_field ic)" and m=m, OF TraceConfig_decoder])
     (use assms in \<open>simp_all add: TraceConfig_field_def tag_literals\<close>)

lemma TraceConfig_block_DisableStorage:
  assumes "DisableStorage m = False"
  shows "TraceConfig_loop ic (pre @ boolBlock [0x30] v @ rest) (length pre) m
    = TraceConfig_loop ic ((pre @ boolBlock [0x30] v) @ rest) (length (pre @ boolBlock [0x30] v)) (m\<lparr>DisableStorage := v\<rparr>)"
  by (rule loop_boolBlock[where upd="\<lambda>b. m\<lparr>DisableStorage := b\<rparr>" and fn=6 and field="(TraceConfig_field ic)" and m=m, OF TraceConfig_decoder])
     (use assms in \<open>simp_all add: TraceConfig_field_def tag_literals\<close>)

lemma TraceConfig_block_Debug:
  assumes "Debug m = False"
  shows "TraceConfig_loop ic (pre @ boolBlock [0x40] v @ rest) (length pre) m
    = TraceConfig_loop ic ((pre @ boolBlock [0x40] v) @ rest) (length (pre @ boolBlock [0x40] v)) (m\<lparr>Debug := v\<rparr>)"
  by (rule loop_boolBlock[where upd="\<lambda>b. m\<lparr>Debug := b\<rparr>" and fn=8 and field="(TraceConfig_field ic)" and m=m, OF TraceConfig_decoder])
     (use assms in \<open>simp_all add: TraceConfig_field_def tag_literals\<close>)

lemma TraceConfig_block_Limit:
  assumes "Limit m = 0"
  shows "TraceConfig_loop ic (pre @ int32Block [0x48] v @ rest) (length pre) m
    = TraceConfig_loop ic ((pre @ int32Block [0x48] v) @ rest) (length (pre @ int32Block [0x48] v)) (m\<lparr>Limit := v\<rparr>)"
  by (rule loop_int32Block[where upd="\<lambda>v. m\<lparr>Limit := v\<rparr>" and fn=9 and field="(TraceConfig_field ic)" and m=m, OF TraceConfig_decoder])
     (use assms in \<open>simp_all add: TraceConfig_field_def tag_literals\<close>)

lemma TraceConfig_block_Overrides:
  assumes "length (pre @ (case v of None \<Rightarrow> [] | Some c \<Rightarrow> lenDelim [0x52] (ChainConfig_MarshalToSizedBuffer ic c)) @ rest) < 2 ^ 63" and "Overrides m = None" and "case v of None \<Rightarrow> True | Some c \<Rightarrow> ChainConfig_valid ic c"
  shows "TraceConfig_loop ic (pre @ (case v of None \<Rightarrow> [] | Some c \<Rightarrow> lenDelim [0x52] (ChainConfig_MarshalToSizedBuffer ic c)) @ rest) (length pre) m
    = TraceConfig_loop ic ((pre @ (case v of None \<Rightarrow> [] | Some c \<Rightarrow> lenDelim [0x52] (ChainConfig_MarshalToSizedBuffer ic c))) @ rest) (length (pre @ (case v of None \<Rightarrow> [] | Some c \<Rightarrow> lenDelim [0x52] (ChainConfig_MarshalToSizedBuffer ic c)))) (m\<lparr>Overrides := v\<rparr>)"
proof (cases v)
  case None
  have "m\<lparr>Overrides := None\<rparr> = m" by (subst assms(2)[symmetric]) simp
  then show ?thesis using None by simp
next
  case (Some c)
  have sz: "ChainConfig_Size ic c < 2 ^ 63" using assms(1) Some by (simp add: sizeLenDelim_def)
  have va: "ChainConfig_valid ic c" using assms(3) Some by simp
  note rt = ChainConfig_roundtrip[OF sz va]
  have "TraceConfig_loop ic (pre @ lenDelim [0x52] (ChainConfig_MarshalToSizedBuffer ic c) @ rest) (length pre) m
    = TraceConfig_loop ic ((pre @ lenDelim [0x52] (ChainConfig_MarshalToSizedBuffer ic c)) @ rest)
        (length (pre @ lenDelim [0x52] (ChainConfig_MarshalToSizedBuffer ic c))) (m\<lparr>Overrides := Some c\<rparr>)"
    by (rule loop_lenDelim[where g="\<lambda>bs. case ChainConfig_Unmarshal ic bs (case Overrides m of None \<Rightarrow> ChainConfig_zero | Some c \<Rightarrow> c) of Inl e \<Rightarrow> Inl e | Inr c \<Rightarrow> Inr (m\<lparr>Overrides := Some c\<rparr>)"
          and fn=10 and field="(TraceConfig_field ic)" and m=m, OF TraceConfig_decoder])
       (use assms Some rt in \<open>simp_all add: TraceConfig_field_def tag_literals\<close>)
  then show ?thesis by (simp add: Some)
qed

lemma TraceConfig_block_EnableMemory:
  assumes "EnableMemory m = False"
  shows "TraceConfig_loop ic (pre @ boolBlock [0x58] v @ rest) (length pre) m
    = TraceConfig_loop ic ((pre @ boolBlock [0x58] v) @ rest) (length (pre @ boolBlock [0x58] v)) (m\<lparr>EnableMemory := v\<rparr>)"
  by (rule loop_boolBlock[where upd="\<lambda>b. m\<lparr>EnableMemory := b\<rparr>" and fn=11 and field="(TraceConfig_field ic)" and m=m, OF TraceConfig_decoder])
     (use assms in \<open>simp_all add: TraceConfig_field_def tag_literals\<close>)

lemma TraceConfig_block_EnableReturnData:
  assumes "EnableReturnData m = False"
  shows "TraceConfig_loop ic (pre @ boolBlock [0x60] v @ rest) (length pre) m
    = TraceConfig_loop ic ((pre @ boolBlock [0x60] v) @ rest) (length (pre @ boolBlock [0x60] v)) (m\<lparr>EnableReturnData := v\<rparr>)"
  by (rule loop_boolBlock[where upd="\<lambda>b. m\<lparr>EnableReturnData := b\<rparr>" and fn=12 and field="(TraceConfig_field ic)" and m=m, OF TraceConfig_decoder])
     (use assms in \<open>simp_all add: TraceConfig_field_def tag_literals\<close>)

lemma TraceConfig_block_TracerJsonConfig:
  assumes "length (pre @ bytesBlock [0x6a] v @ rest) < 2 ^ 63" and "TracerJsonConfig m = []"
  shows "TraceConfig_loop ic (pre @ bytesBlock [0x6a] v @ rest) (length pre) m
    = TraceConfig_loop ic ((pre @ bytesBlock [0x6a] v) @ rest) (length (pre @ bytesBlock [0x6a] v)) (m\<lparr>TracerJsonConfig := v\<rparr>)"
  by (rule loop_bytesBlock[where upd="\<lambda>s. m\<lparr>TracerJsonConfig := s\<rparr>" and fn=13 and field="(TraceConfig_field ic)" and m=m, OF TraceConfig_decoder])
     (use assms in \<open>simp_all add: TraceConfig_field_def tag_literals\<close>)

lemma TraceConfig_chain:
  assumes L: "length (pre @ TraceConfig_MarshalToSizedBuffer ic x @ rest) < 2 ^ 63"
    and V: "TraceConfig_valid ic x"
  shows "TraceConfig_loop ic (pre @ TraceConfig_MarshalToSizedBuffer ic x @ rest) (length pre) TraceConfig_zero
    = TraceConfig_loop ic (pre @ TraceConfig_MarshalToSizedBuffer ic x @ rest) (length pre + length (TraceConfig_MarshalToSizedBuffer ic x)) x"
proof -
  let ?B1 = "bytesBlock [0xa] (Tracer x)"
  let ?B2 = "bytesBlock [0x12] (Timeout x)"
  let ?B3 = "varintBlock [0x18] (Reexec x)"
  let ?B4 = "boolBlock [0x28] (DisableStack x)"
  let ?B5 = "boolBlock [0x30] (DisableStorage x)"
  let ?B6 = "boolBlock [0x40] (Debug x)"
  let ?B7 = "int32Block [0x48] (Limit x)"
  let ?B8 = "(case Overrides x of None \<Rightarrow> [] | Some c \<Rightarrow> lenDelim [0x52] (ChainConfig_MarshalToSizedBuffer ic c))"
  let ?B9 = "boolBlock [0x58] (EnableMemory x)"
  let ?B10 = "boolBlock [0x60] (EnableReturnData x)"
  let ?B11 = "bytesBlock [0x6a] (TracerJsonConfig x)"
  let ?m1 = "TraceConfig_zero\<lparr>Tracer := Tracer x\<rparr>"
  let ?m2 = "?m1\<lparr>Timeout := Timeout x\<rparr>"
  let ?m3 = "?m2\<lparr>Reexec := Reexec x\<rparr>"
  let ?m4 = "?m3\<lparr>DisableStack := DisableStack x\<rparr>"
  let ?m5 = "?m4\<lparr>DisableStorage := DisableStorage x\<rparr>"
  let ?m6 = "?m5\<lparr>Debug := Debug x\<rparr>"
  let ?m7 = "?m6\<lparr>Limit := Limit x\<rparr>"
  let ?m8 = "?m7\<lparr>Overrides := Overrides x\<rparr>"
  let ?m9 = "?m8\<lparr>EnableMemory := EnableMemory x\<rparr>"
  let ?m10 = "?m9\<lparr>EnableReturnData := EnableReturnData x\<rparr>"
  let ?m11 = "?m10\<lparr>TracerJsonConfig := TracerJsonConfig x\<rparr>"
  have E: "pre @ TraceConfig_MarshalToSizedBuffer ic x @ rest = pre @ ?B1 @ ?B2 @ ?B3 @ ?B4 @ ?B5 @ ?B6 @ ?B7 @ ?B8 @ ?B9 @ ?B10 @ ?B11 @ rest"
    by (simp add: TraceConfig_MarshalToSizedBuffer_def)
  note L' = L[unfolded E]
  have "TraceConfig_loop ic (pre @ ?B1 @ ?B2 @ ?B3 @ ?B4 @ ?B5 @ ?B6 @ ?B7 @ ?B8 @ ?B9 @ ?B10 @ ?B11 @ rest) (length pre) TraceConfig_zero
      = TraceConfig_loop ic ((pre @ ?B1) @ ?B2 @ ?B3 @ ?B4 @ ?B5 @ ?B6 @ ?B7 @ ?B8 @ ?B9 @ ?B10 @ ?B11 @ rest) (length (pre @ ?B1)) ?m1"
    by (rule TraceConfig_block_Tracer) (use L' V[unfolded TraceConfig_valid_def] in \<open>simp_all add: TraceConfig_zero_def\<close>)
  also have "\<dots> = TraceConfig_loop ic (((pre @ ?B1) @ ?B2) @ ?B3 @ ?B4 @ ?B5 @ ?B6 @ ?B7 @ ?B8 @ ?B9 @ ?B10 @ ?B11 @ rest) (length ((pre @ ?B1) @ ?B2)) ?m2"
    by (rule TraceConfig_block_Timeout) (use L' V[unfolded TraceConfig_valid_def] in \<open>simp_all add: TraceConfig_zero_def\<close>)
  also have "\<dots> = TraceConfig_loop ic ((((pre @ ?B1) @ ?B2) @ ?B3) @ ?B4 @ ?B5 @ ?B6 @ ?B7 @ ?B8 @ ?B9 @ ?B10 @ ?B11 @ rest) (length (((pre @ ?B1) @ ?B2) @ ?B3)) ?m3"
    by (rule TraceConfig_block_Reexec) (use L' V[unfolded TraceConfig_valid_def] in \<open>simp_all add: TraceConfig_zero_def\<close>)
  also have "\<dots> = TraceConfig_loop ic (((((pre @ ?B1) @ ?B2) @ ?B3) @ ?B4) @ ?B5 @ ?B6 @ ?B7 @ ?B8 @ ?B9 @ ?B10 @ ?B11 @ rest) (length ((((pre @ ?B1) @ ?B2) @ ?B3) @ ?B4)) ?m4"
    by (rule TraceConfig_block_DisableStack) (use L' V[unfolded TraceConfig_valid_def] in \<open>simp_all add: TraceConfig_zero_def\<close>)
  also have "\<dots> = TraceConfig_loop ic ((((((pre @ ?B1) @ ?B2) @ ?B3) @ ?B4) @ ?B5) @ ?B6 @ ?B7 @ ?B8 @ ?B9 @ ?B10 @ ?B11 @ rest) (length (((((pre @ ?B1) @ ?B2) @ ?B3) @ ?B4) @ ?B5)) ?m5"
    by (rule TraceConfig_block_DisableStorage) (use L' V[unfolded TraceConfig_valid_def] in \<open>simp_all add: TraceConfig_zero_def\<close>)
  also have "\<dots> = TraceConfig_loop ic (((((((pre @ ?B1) @ ?B2) @ ?B3) @ ?B4) @ ?B5) @ ?B6) @ ?B7 @ ?B8 @ ?B9 @ ?B10 @ ?B11 @ rest) (length ((((((pre @ ?B1) @ ?B2) @ ?B3) @ ?B4) @ ?B5) @ ?B6)) ?m6"
    by (rule TraceConfig_block_Debug) (use L' V[unfolded TraceConfig_valid_def] in \<open>simp_all add: TraceConfig_zero_def\<close>)
  also have "\<dots> = TraceConfig_loop ic ((((((((pre @ ?B1) @ ?B2) @ ?B3) @ ?B4) @ ?B5) @ ?B6) @ ?B7) @ ?B8 @ ?B9 @ ?B10 @ ?B11 @ rest) (length (((((((pre @ ?B1) @ ?B2) @ ?B3) @ ?B4) @ ?B5) @ ?B6) @ ?B7)) ?m7"
    by (rule TraceConfig_block_Limit) (use L' V[unfolded TraceConfig_valid_def] in \<open>simp_all add: TraceConfig_zero_def\<close>)
  also have "\<dots> = TraceConfig_loop ic (((((((((pre @ ?B1) @ ?B2) @ ?B3) @ ?B4) @ ?B5) @ ?B6) @ ?B7) @ ?B8) @ ?B9 @ ?B10 @ ?B11 @ rest) (length ((((((((pre @ ?B1) @ ?B2) @ ?B3) @ ?B4) @ ?B5) @ ?B6) @ ?B7) @ ?B8)) ?m8"
    by (rule TraceConfig_block_Overrides) (use L' V[unfolded TraceConfig_valid_def] in \<open>simp_all add: TraceConfig_zero_def\<close>)
  also have "\<dots> = TraceConfig_loop ic ((((((((((pre @ ?B1) @ ?B2) @ ?B3) @ ?B4) @ ?B5) @ ?B6) @ ?B7) @ ?B8) @ ?B9) @ ?B10 @ ?B11 @ rest) (length (((((((((pre @ ?B1) @ ?B2) @ ?B3) @ ?B4) @ ?B5) @ ?B6) @ ?B7) @ ?B8) @ ?B9)) ?m9"
    by (rule TraceConfig_block_EnableMemory) (use L' V[unfolded TraceConfig_valid_def] in \<open>simp_all add: TraceConfig_zero_def\<close>)
  also have "\<dots> = TraceConfig_loop ic (((((((((((pre @ ?B1) @ ?B2) @ ?B3) @ ?B4) @ ?B5) @ ?B6) @ ?B7) @ ?B8) @ ?B9) @ ?B10) @ ?B11 @ rest) (length ((((((((((pre @ ?B1) @ ?B2) @ ?B3) @ ?B4) @ ?B5) @ ?B6) @ ?B7) @ ?B8) @ ?B9) @ ?B10)) ?m10"
    by (rule TraceConfig_block_EnableReturnData) (use L' V[unfolded TraceConfig_valid_def] in \<open>simp_all add: TraceConfig_zero_def\<close>)
  also have "\<dots> = TraceConfig_loop ic ((((((((((((pre @ ?B1) @ ?B2) @ ?B3) @ ?B4) @ ?B5) @ ?B6) @ ?B7) @ ?B8) @ ?B9) @ ?B10) @ ?B11) @ rest) (length (((((((((((pre @ ?B1) @ ?B2) @ ?B3) @ ?B4) @ ?B5) @ ?B6) @ ?B7) @ ?B8) @ ?B9) @ ?B10) @ ?B11)) ?m11"
    by (rule TraceConfig_block_TracerJsonConfig) (use L' V[unfolded TraceConfig_valid_def] in \<open>simp_all add: TraceConfig_zero_def\<close>)
  finally have C: "TraceConfig_loop ic (pre @ ?B1 @ ?B2 @ ?B3 @ ?B4 @ ?B5 @ ?B6 @ ?B7 @ ?B8 @ ?B9 @ ?B10 @ ?B11 @ rest) (length pre) TraceConfig_zero
      = TraceConfig_loop ic ((((((((((((pre @ ?B1) @ ?B2) @ ?B3) @ ?B4) @ ?B5) @ ?B6) @ ?B7) @ ?B8) @ ?B9) @ ?B10) @ ?B11) @ rest) (length (((((((((((pre @ ?B1) @ ?B2) @ ?B3) @ ?B4) @ ?B5) @ ?B6) @ ?B7) @ ?B8) @ ?B9) @ ?B10) @ ?B11)) ?m11" .
  have M: "?m11 = x" by (simp add: TraceConfig_zero_def)
  have A: "(((((((((((pre @ ?B1) @ ?B2) @ ?B3) @ ?B4) @ ?B5) @ ?B6) @ ?B7) @ ?B8) @ ?B9) @ ?B10) @ ?B11) @ rest = pre @ TraceConfig_MarshalToSizedBuffer ic x @ rest"
    by (simp add: TraceConfig_MarshalToSizedBuffer_def)
  have N: "length (((((((((((pre @ ?B1) @ ?B2) @ ?B3) @ ?B4) @ ?B5) @ ?B6) @ ?B7) @ ?B8) @ ?B9) @ ?B10) @ ?B11) = length pre + length (TraceConfig_MarshalToSizedBuffer ic x)"
    by (simp add: TraceConfig_MarshalToSizedBuffer_def)
  show ?thesis using C unfolding M A N E[symmetric] .
qed

text \<open>Decoding what \<open>TraceConfig.MarshalToSizedBuffer\<close> wrote, into a fresh message.\<close>

lemma TraceConfig_roundtrip:
  assumes "TraceConfig_Size ic x < 2 ^ 63" and "TraceConfig_valid ic x"
  shows "TraceConfig_Unmarshal ic (TraceConfig_MarshalToSizedBuffer ic x) TraceConfig_zero = Inr x"
  using TraceConfig_chain[of "[]" ic x "[]"] assms decoder_loop_end[OF TraceConfig_decoder, where d="TraceConfig_MarshalToSizedBuffer ic x" and m=x]
  by (simp add: TraceConfig_Unmarshal_def)

section \<open>A concrete codec for \<open>math.Int\<close>\<close>

text \<open>
  The theorems below hold for every codec of \<open>math.Int\<close> that reads back what it wrote.
  Here is one such codec, in the manner of the library (the decimal text of the integer, with
  a leading minus sign for a negative one); the theorems are instantiated with it.
\<close>

fun dec_digits :: "nat \<Rightarrow> byte list" where
  "dec_digits n =
     (if n < 10 then [of_nat (48 + n)]
      else dec_digits (n div 10) @ [of_nat (48 + n mod 10)])"

declare dec_digits.simps [simp del]

definition text_of_int :: "int \<Rightarrow> byte list" where
  "text_of_int v = (if v < 0 then 0x2d # dec_digits (nat (- v)) else dec_digits (nat v))"

primrec digits_value :: "byte list \<Rightarrow> nat \<Rightarrow> nat option" where
  "digits_value [] acc = Some acc"
| "digits_value (b # bs) acc =
     (if 48 \<le> unat b \<and> unat b \<le> 57 then digits_value bs (10 * acc + (unat b - 48))
      else None)"

definition int_of_text :: "byte list \<Rightarrow> error + int" where
  "int_of_text bs =
     (case bs of
        [] \<Rightarrow> Inl ErrCustomType
      | b # r \<Rightarrow>
          if b = 0x2d then
            (case r of
               [] \<Rightarrow> Inl ErrCustomType
             | _ \<Rightarrow> (case digits_value r 0 of
                        None \<Rightarrow> Inl ErrCustomType
                      | Some n \<Rightarrow> Inr (- int n)))
          else (case digits_value bs 0 of
                  None \<Rightarrow> Inl ErrCustomType
                | Some n \<Rightarrow> Inr (int n)))"

definition text_codec :: int_codec where
  "text_codec = \<lparr>Int_Marshal = text_of_int, Int_Unmarshal = int_of_text\<rparr>"

lemmas text_codec_eval = text_codec_def text_of_int_def int_of_text_def dec_digits.simps

section \<open>The claims\<close>

definition bytes_of :: "string \<Rightarrow> byte list" where
  "bytes_of s = map of_char s"

text \<open>
  C1. For each of the eight record types, decoding the bytes that \<open>Marshal\<close> produced for a
  value, into a fresh record, gives that value back. The value has to fit a Go slice (its
  \<open>Size\<close> is below \<open>2 ^ 63\<close>) and, where it holds \<open>math.Int\<close> numbers, each of them has to
  survive the codec of that library. In particular a \<open>TransactionLogs\<close> with three logs
  decodes to the same three logs in the same order.
\<close>

theorem C1_round_trip:
  "(State_Size s < 2 ^ 63 \<longrightarrow>
      (\<exists>bs. State_Marshal s = Inr bs \<and> State_Unmarshal bs State_zero = Inr s))
   \<and> (AccessTuple_Size a < 2 ^ 63 \<longrightarrow>
      (\<exists>bs. AccessTuple_Marshal a = Inr bs \<and> AccessTuple_Unmarshal bs AccessTuple_zero = Inr a))
   \<and> (Log_Size l < 2 ^ 63 \<longrightarrow>
      (\<exists>bs. Log_Marshal l = Inr bs \<and> Log_Unmarshal bs Log_zero = Inr l))
   \<and> (TransactionLogs_Size t < 2 ^ 63 \<longrightarrow>
      (\<exists>bs. TransactionLogs_Marshal t = Inr bs
         \<and> TransactionLogs_Unmarshal bs TransactionLogs_zero = Inr t))
   \<and> (TxResult_Size r < 2 ^ 63 \<longrightarrow>
      (\<exists>bs. TxResult_Marshal r = Inr bs \<and> TxResult_Unmarshal bs TxResult_zero = Inr r))
   \<and> (ChainConfig_Size ic c < 2 ^ 63 \<and> ChainConfig_valid ic c \<longrightarrow>
      (\<exists>bs. ChainConfig_Marshal ic c = Inr bs
         \<and> ChainConfig_Unmarshal ic bs ChainConfig_zero = Inr c))
   \<and> (Params_Size ic p < 2 ^ 63 \<and> Params_valid ic p \<longrightarrow>
      (\<exists>bs. Params_Marshal ic p = Inr bs \<and> Params_Unmarshal ic bs Params_zero = Inr p))
   \<and> (TraceConfig_Size ic tc < 2 ^ 63 \<and> TraceConfig_valid ic tc \<longrightarrow>
      (\<exists>bs. TraceConfig_Marshal ic tc = Inr bs
         \<and> TraceConfig_Unmarshal ic bs TraceConfig_zero = Inr tc))
   \<and> (TransactionLogs_Size \<lparr>Hash = h, Logs = [l1, l2, l3]\<rparr> < 2 ^ 63 \<longrightarrow>
      (\<exists>bs t'. TransactionLogs_Marshal \<lparr>Hash = h, Logs = [l1, l2, l3]\<rparr> = Inr bs
         \<and> TransactionLogs_Unmarshal bs TransactionLogs_zero = Inr t'
         \<and> Logs t' = [l1, l2, l3]))"
  by (simp add: State_Marshal_eq AccessTuple_Marshal_eq Log_Marshal_eq
      TransactionLogs_Marshal_eq TxResult_Marshal_eq ChainConfig_Marshal_eq Params_Marshal_eq
      TraceConfig_Marshal_eq State_roundtrip AccessTuple_roundtrip Log_roundtrip
      TransactionLogs_roundtrip TxResult_roundtrip ChainConfig_roundtrip Params_roundtrip
      TraceConfig_roundtrip)

text \<open>The example values the theorems are instantiated with.\<close>

definition example_State :: State where
  "example_State = \<lparr>Key = bytes_of ''0xabc'', Value = bytes_of ''0x01''\<rparr>"

definition example_AccessTuple :: AccessTuple where
  "example_AccessTuple =
     \<lparr>AccessTuple.Address = bytes_of ''0xaa'', StorageKeys = [bytes_of ''k1'', bytes_of ''k2'']\<rparr>"

definition example_Log :: "nat \<Rightarrow> Log" where
  "example_Log n =
     \<lparr>Log.Address = bytes_of ''0xbb'', Topics = [bytes_of ''t1'', bytes_of ''t2''],
      Data = [1, 2, 3], BlockNumber = 300, TxHash = bytes_of ''0xcc'', TxIndex = 1,
      BlockHash = bytes_of ''0xdd'', Index = of_nat n, Removed = True\<rparr>"

definition example_TransactionLogs :: TransactionLogs where
  "example_TransactionLogs =
     \<lparr>Hash = bytes_of ''0xee'', Logs = [example_Log 0, example_Log 1, example_Log 2]\<rparr>"

definition example_TxResult :: TxResult where
  "example_TxResult =
     \<lparr>ContractAddress = bytes_of ''0xff'', Bloom = [7], TxLogs = example_TransactionLogs,
      Ret = [], Reverted = True, GasUsed = 21000\<rparr>"

definition example_ChainConfig :: ChainConfig where
  "example_ChainConfig =
     ChainConfig_zero\<lparr>HomesteadBlock := Some 0, DAOForkSupport := True,
       EIP150Hash := bytes_of ''0x00'', LondonBlock := Some 12965000, CancunBlock := Some (- 1)\<rparr>"

definition example_Params :: Params where
  "example_Params =
     \<lparr>EvmDenom = bytes_of ''aart'', EnableCreate = True, EnableCall = False,
      ExtraEIPs = [1, 2, 1559], ChainConfig = example_ChainConfig, AllowUnprotectedTxs = True\<rparr>"

definition example_TraceConfig :: TraceConfig where
  "example_TraceConfig = TraceConfig_zero\<lparr>Limit := - 5, Overrides := Some example_ChainConfig\<rparr>"

lemmas example_defs = example_State_def example_AccessTuple_def example_Log_def
  example_TransactionLogs_def example_TxResult_def example_ChainConfig_def example_Params_def
  example_TraceConfig_def bytes_of_def

lemmas sovEvm_eval = sovEvm_small sovEvm_step word_less_nat_alt word_le_nat_alt

lemmas Size_defs = State_Size_def AccessTuple_Size_def Log_Size_def TransactionLogs_Size_def
  TxResult_Size_def ChainConfig_Size_def Params_Size_def TraceConfig_Size_def bytesSize_def
  sizeLenDelim_def varintSize_def boolSize_def int32Size_def packedSize_def optIntSize_def

lemma example_sizes:
  "State_Size example_State < 2 ^ 63"
  "AccessTuple_Size example_AccessTuple < 2 ^ 63"
  "Log_Size (example_Log 0) < 2 ^ 63"
  "TransactionLogs_Size example_TransactionLogs < 2 ^ 63"
  "TxResult_Size example_TxResult < 2 ^ 63"
  "ChainConfig_Size text_codec example_ChainConfig < 2 ^ 63"
  "Params_Size text_codec example_Params < 2 ^ 63"
  "TraceConfig_Size text_codec example_TraceConfig < 2 ^ 63"
  by (simp_all add: Size_defs example_defs ChainConfig_zero_def TraceConfig_zero_def
      text_codec_eval sovEvm_eval)

lemma example_valid:
  "ChainConfig_valid text_codec example_ChainConfig"
  "Params_valid text_codec example_Params"
  "TraceConfig_valid text_codec example_TraceConfig"
  by (simp_all add: ChainConfig_valid_def Params_valid_def TraceConfig_valid_def Int_ok_def
      example_defs ChainConfig_zero_def TraceConfig_zero_def text_codec_eval)

theorem C1_round_trip_witness:
  "(\<exists>bs. State_Marshal example_State = Inr bs
      \<and> State_Unmarshal bs State_zero = Inr example_State)
   \<and> (\<exists>bs. AccessTuple_Marshal example_AccessTuple = Inr bs
      \<and> AccessTuple_Unmarshal bs AccessTuple_zero = Inr example_AccessTuple)
   \<and> (\<exists>bs. Log_Marshal (example_Log 0) = Inr bs
      \<and> Log_Unmarshal bs Log_zero = Inr (example_Log 0))
   \<and> (\<exists>bs. TransactionLogs_Marshal example_TransactionLogs = Inr bs
      \<and> TransactionLogs_Unmarshal bs TransactionLogs_zero = Inr example_TransactionLogs)
   \<and> (\<exists>bs. TxResult_Marshal example_TxResult = Inr bs
      \<and> TxResult_Unmarshal bs TxResult_zero = Inr example_TxResult)
   \<and> (\<exists>bs. ChainConfig_Marshal text_codec example_ChainConfig = Inr bs
      \<and> ChainConfig_Unmarshal text_codec bs ChainConfig_zero = Inr example_ChainConfig)
   \<and> (\<exists>bs. Params_Marshal text_codec example_Params = Inr bs
      \<and> Params_Unmarshal text_codec bs Params_zero = Inr example_Params)
   \<and> (\<exists>bs. TraceConfig_Marshal text_codec example_TraceConfig = Inr bs
      \<and> TraceConfig_Unmarshal text_codec bs TraceConfig_zero = Inr example_TraceConfig)
   \<and> (\<exists>bs t'. TransactionLogs_Marshal example_TransactionLogs = Inr bs
      \<and> TransactionLogs_Unmarshal bs TransactionLogs_zero = Inr t'
      \<and> Logs t' = [example_Log 0, example_Log 1, example_Log 2])"
  using C1_round_trip[where s=example_State and a=example_AccessTuple and l="example_Log 0"
      and t=example_TransactionLogs and r=example_TxResult and ic=text_codec
      and c=example_ChainConfig and p=example_Params and tc=example_TraceConfig
      and h="bytes_of ''0xee''" and ?l1.0="example_Log 0" and ?l2.0="example_Log 1"
      and ?l3.0="example_Log 2"]
    example_sizes example_valid
  by (simp add: example_TransactionLogs_def)


text \<open>
  C5, as amended. The key \<open>"0xabc"\<close> has five bytes, so its length varint is 5, not 4:
  \<open>State{key: "0xabc", value: "0x01"}\<close> encodes to tag \<open>0x0a\<close>, length 5, the bytes of
  \<open>"0xabc"\<close>, tag \<open>0x12\<close>, length 4, the bytes of \<open>"0x01"\<close>, and decoding these bytes
  gives the original value back.
\<close>

lemmas State_eval =
  State_Unmarshal_def State_loop.simps State_step_def State_field_def State_zero_def
  readTag_def readVarint_def readVarint_loop.simps fieldBytes_def readLen_def store_def
  slice_def Let_def bytes_of_def

theorem C5_State_scenario:
  "State_Marshal \<lparr>Key = bytes_of ''0xabc'', Value = bytes_of ''0x01''\<rparr>
     = Inr ([0x0a, 5] @ bytes_of ''0xabc'' @ [0x12, 4] @ bytes_of ''0x01'')
   \<and> State_Unmarshal ([0x0a, 5] @ bytes_of ''0xabc'' @ [0x12, 4] @ bytes_of ''0x01'') State_zero
     = Inr \<lparr>Key = bytes_of ''0xabc'', Value = bytes_of ''0x01''\<rparr>"
proof
  show "State_Marshal \<lparr>Key = bytes_of ''0xabc'', Value = bytes_of ''0x01''\<rparr>
     = Inr ([0x0a, 5] @ bytes_of ''0xabc'' @ [0x12, 4] @ bytes_of ''0x01'')"
    by (simp add: State_Marshal_eq State_MarshalToSizedBuffer_def bytesBlock_def lenDelim_def
        encodeVarintEvm.simps bytes_of_def)
  show "State_Unmarshal ([0x0a, 5] @ bytes_of ''0xabc'' @ [0x12, 4] @ bytes_of ''0x01'')
      State_zero
     = Inr \<lparr>Key = bytes_of ''0xabc'', Value = bytes_of ''0x01''\<rparr>"
    by (simp add: State_eval)
qed

text \<open>
  C5 as stated fails: the encoding is not the byte sequence with a length varint of 4
  before \<open>"0xabc"\<close>, and that byte sequence does not decode to the value (its second field
  runs past the end of the buffer).
\<close>

theorem C5_State_scenario_counterexample:
  "State_Marshal \<lparr>Key = bytes_of ''0xabc'', Value = bytes_of ''0x01''\<rparr>
     \<noteq> Inr ([0x0a, 4] @ bytes_of ''0xabc'' @ [0x12, 4] @ bytes_of ''0x01'')
   \<and> State_Unmarshal ([0x0a, 4] @ bytes_of ''0xabc'' @ [0x12, 4] @ bytes_of ''0x01'') State_zero
     = Inl ErrUnexpectedEOF"
proof
  show "State_Marshal \<lparr>Key = bytes_of ''0xabc'', Value = bytes_of ''0x01''\<rparr>
     \<noteq> Inr ([0x0a, 4] @ bytes_of ''0xabc'' @ [0x12, 4] @ bytes_of ''0x01'')"
    by (simp add: State_Marshal_eq State_MarshalToSizedBuffer_def bytesBlock_def lenDelim_def
        encodeVarintEvm.simps bytes_of_def)
  show "State_Unmarshal ([0x0a, 4] @ bytes_of ''0xabc'' @ [0x12, 4] @ bytes_of ''0x01'')
      State_zero = Inl ErrUnexpectedEOF"
    by (simp add: State_eval unknownField_def skipField_def skipEvm_def skipEvm_loop.simps
        skipEvm_switch_def)
qed

end
